theory Spec2Isabelle
  imports Complex_Main "HOL-Library.Word"
begin

section \<open>JavaScript strings, lines and JSON values\<close>

text \<open>
  A JavaScript string is a sequence of UTF-16 code units. \<open>js\<close> turns an ASCII literal of
  the source into such a sequence, so that the template literals of \<^verbatim>\<open>index.js\<close> can be
  written as they stand.
\<close>

type_synonym jschar = "16 word"
type_synonym jsstring = "jschar list"

definition js :: "string \<Rightarrow> jsstring" where
  "js s = map of_char s"

definition NL :: jschar where
  "NL = 0xA"

text \<open>
  \<^verbatim>\<open>String.prototype.trim\<close> removes the ECMAScript WhiteSpace and LineTerminator code points
  from both ends; all of them lie in the basic multilingual plane, one code unit each.
\<close>

definition is_ws :: "jschar \<Rightarrow> bool" where
  "is_ws c \<longleftrightarrow>
     c = 0x9 \<or> c = 0xA \<or> c = 0xB \<or> c = 0xC \<or> c = 0xD \<or> c = 0x20 \<or> c = 0xA0 \<or>
     c = 0x1680 \<or> (0x2000 \<le> c \<and> c \<le> 0x200A) \<or> c = 0x2028 \<or> c = 0x2029 \<or>
     c = 0x202F \<or> c = 0x205F \<or> c = 0x3000 \<or> c = 0xFEFF"

definition trim :: "jsstring \<Rightarrow> jsstring" where
  "trim s = rev (dropWhile is_ws (rev (dropWhile is_ws s)))"

text \<open>
  \<^verbatim>\<open>s.split('\n')\<close>: the pieces between the newlines, in order; the empty string gives one
  empty piece. The result is never empty, so the last case below is never taken.
\<close>

fun split_nl :: "jsstring \<Rightarrow> jsstring list" where
  "split_nl [] = [[]]"
| "split_nl (c # cs) =
     (if c = NL then [] # split_nl cs
      else (case split_nl cs of l # ls \<Rightarrow> (c # l) # ls | [] \<Rightarrow> [[c]]))"

text \<open>
  \<^verbatim>\<open>content.split('\n').filter(line => line.trim())\<close>, the expression every reader of a log
  file in \<^verbatim>\<open>index.js\<close> uses: a line is kept when its trimmed text is a truthy (non-empty)
  string.
\<close>

definition nonblank_lines :: "jsstring \<Rightarrow> jsstring list" where
  "nonblank_lines content = filter (\<lambda>line. trim line \<noteq> []) (split_nl content)"

text \<open>The values handed to \<^verbatim>\<open>JSON.stringify\<close>; an object lists its keys in source order.\<close>

datatype jsval =
    JNull
  | JStr jsstring
  | JNum nat
  | JArr "jsval list"
  | JObj "(string \<times> jsval) list"

fun get_field :: "string \<Rightarrow> jsval \<Rightarrow> jsval option" where
  "get_field k (JObj kvs) = map_of kvs k"
| "get_field k _ = None"

fun keys :: "jsval \<Rightarrow> string list" where
  "keys (JObj kvs) = map fst kvs"
| "keys _ = []"

section \<open>The world outside the service\<close>

text \<open>
  A log file on disk: \<open>f_ident\<close> stands for the identity (device and inode) of the file that
  is at the path now, \<open>f_content\<close> is its text as \<^verbatim>\<open>readFileSync(path, 'utf8')\<close> decodes it,
  and \<open>f_readable\<close> is false when reading it throws.
\<close>

record logfile =
  f_ident :: nat
  f_content :: jsstring
  f_readable :: bool

text \<open>One element of the array that \<^verbatim>\<open>pm2 jlist\<close> prints; an absent property is \<open>None\<close>.\<close>

record raw_proc =
  rp_name :: jsstring
  rp_pid :: "real option"
  rp_status :: "jsstring option"
  rp_pm_uptime :: "real option"
  rp_memory :: "real option"
  rp_cpu :: "real option"
  rp_restart_time :: "real option"
  rp_exec_mode :: "jsstring option"
  rp_pm_exec_path :: "jsstring option"

text \<open>
  The supervisor, the file system and the two traces the service leaves: the commands it
  executed and the messages it passed to \<^verbatim>\<open>log\<close> (\<open>service_log\<close> here), oldest first;
  the time stamp that \<^verbatim>\<open>log\<close> puts in front and the rotation of the service's own log
  file are left out.
  \<open>jlist\<close> is the outcome of \<^verbatim>\<open>execAsync('pm2 jlist')\<close> followed by \<^verbatim>\<open>JSON.parse\<close>:
  \<open>Inl\<close> carries the message of whatever was thrown. \<open>cmd_result\<close> is the outcome of any
  other command: the error message, or standard output and standard error. \<open>files\<close> gives
  the file that is at a path now; \<open>unlinked\<close> keeps the text of a file that has lost its
  name, under the path it had and its identity, for the processes that still hold it
  open.
\<close>

record world =
  home :: "jsstring option"
  jlist :: "jsstring + raw_proc list"
  cmd_result :: "jsstring \<Rightarrow> jsstring + (jsstring \<times> jsstring)"
  files :: "jsstring \<Rightarrow> logfile option"
  unlinked :: "jsstring \<times> nat \<Rightarrow> jsstring option"
  execd :: "jsstring list"
  logged :: "jsstring list"

definition PM2_LOG_DIR :: "world \<Rightarrow> jsstring" where
  "PM2_LOG_DIR w =
     (case home w of
        Some h \<Rightarrow> if h \<noteq> [] then h @ js ''/.pm2/logs'' else js ''/root/.pm2/logs''
      | None \<Rightarrow> js ''/root/.pm2/logs'')"

definition service_log :: "jsstring \<Rightarrow> world \<Rightarrow> world" where
  "service_log msg w = w\<lparr>logged := logged w @ [msg]\<rparr>"

text \<open>
  \<^verbatim>\<open>log\<close> (lines 41 to 48) prints the line, rotates the service's own log inside a
  \<^verbatim>\<open>try\<close> of its own, and then appends the line with \<^verbatim>\<open>fs.appendFileSync\<close> outside any
  \<^verbatim>\<open>try\<close>: when that write throws, \<^verbatim>\<open>log\<close> throws. \<open>log_call err msg\<close> is a call of
  \<^verbatim>\<open>log\<close> in which the write throws \<open>err\<close> (\<open>None\<close> when it succeeds): the message has been
  passed to \<^verbatim>\<open>log\<close> in either case, and the result is \<open>Inl\<close> of what is thrown.
  \<open>service_log\<close> above is a call whose write succeeds; the operations other than
  \<open>getPM2Processes\<close> are followed along such calls.
\<close>

definition log_call :: "jsstring option \<Rightarrow> jsstring \<Rightarrow> world \<Rightarrow> (jsstring + unit) \<times> world" where
  "log_call err msg w =
     (case err of None \<Rightarrow> (Inr (), service_log msg w) | Some e \<Rightarrow> (Inl e, service_log msg w))"

definition existsSync :: "jsstring \<Rightarrow> world \<Rightarrow> bool" where
  "existsSync p w \<longleftrightarrow> files w p \<noteq> None"

definition readFileSync :: "jsstring \<Rightarrow> world \<Rightarrow> jsstring + jsstring" where
  "readFileSync p w =
     (case files w p of
        None \<Rightarrow> Inl (js ''ENOENT: no such file or directory'')
      | Some f \<Rightarrow> if f_readable f then Inr (f_content f) else Inl (js ''EACCES: permission denied''))"

definition execAsync :: "jsstring \<Rightarrow> world \<Rightarrow> (jsstring + (jsstring \<times> jsstring)) \<times> world" where
  "execAsync cmd w = (cmd_result w cmd, w\<lparr>execd := execd w @ [cmd]\<rparr>)"

definition exec_jlist :: "world \<Rightarrow> (jsstring + raw_proc list) \<times> world" where
  "exec_jlist w = (jlist w, w\<lparr>execd := execd w @ [js ''pm2 jlist'']\<rparr>)"

section \<open>Process Directory\<close>

text \<open>\<^verbatim>\<open>x || d\<close> on an optional string and on an optional number with default \<open>0\<close>.\<close>

definition or_str :: "jsstring option \<Rightarrow> jsstring \<Rightarrow> jsstring" where
  "or_str v d = (case v of None \<Rightarrow> d | Some s \<Rightarrow> if s = [] then d else s)"

definition or_zero :: "real option \<Rightarrow> real" where
  "or_zero v = (case v of None \<Rightarrow> 0 | Some x \<Rightarrow> x)"

record proc_info =
  p_name :: jsstring
  p_status :: jsstring
  p_uptime :: real
  p_memory :: real
  p_cpu :: real
  p_pid :: "real option"
  p_restarts :: real
  p_mode :: jsstring

record proc_detail = proc_info +
  p_script :: jsstring
  p_error_log :: jsstring
  p_out_log :: jsstring

definition proc_summary :: "raw_proc \<Rightarrow> proc_info" where
  "proc_summary proc =
     \<lparr>p_name = rp_name proc,
      p_status = or_str (rp_status proc) (js ''unknown''),
      p_uptime = or_zero (rp_pm_uptime proc),
      p_memory = or_zero (rp_memory proc),
      p_cpu = or_zero (rp_cpu proc),
      p_pid = rp_pid proc,
      p_restarts = or_zero (rp_restart_time proc),
      p_mode = or_str (rp_exec_mode proc) (js ''unknown'')\<rparr>"

text \<open>
  \<open>getPM2Processes err\<close>: the result is \<open>Inr\<close> of the list returned or \<open>Inl\<close> of what the
  function throws; \<open>err\<close> is what the write of \<^verbatim>\<open>log\<close> throws, if anything.
\<close>

definition getPM2Processes :: "jsstring option \<Rightarrow> world \<Rightarrow> (jsstring + proc_info list) \<times> world" where
  "getPM2Processes err w =
     (let (r, w1) = exec_jlist w in
      case r of
        Inr processes \<Rightarrow> (Inr (map proc_summary processes), w1)
      | Inl msg \<Rightarrow>
          (let (l, w2) = log_call err (js ''Error getting PM2 processes: '' @ msg) w1 in
           case l of Inl e \<Rightarrow> (Inl e, w2) | Inr u \<Rightarrow> (Inr [], w2)))"

definition getPM2Process :: "jsstring \<Rightarrow> world \<Rightarrow> proc_detail option \<times> world" where
  "getPM2Process name w =
     (let (r, w1) = exec_jlist w in
      case r of
        Inr processes \<Rightarrow>
          (case find (\<lambda>p. rp_name p = name) processes of
             None \<Rightarrow> (None, w1)
           | Some process \<Rightarrow>
               (Some \<lparr>p_name = rp_name process,
                      p_status = or_str (rp_status process) (js ''unknown''),
                      p_uptime = or_zero (rp_pm_uptime process),
                      p_memory = or_zero (rp_memory process),
                      p_cpu = or_zero (rp_cpu process),
                      p_pid = rp_pid process,
                      p_restarts = or_zero (rp_restart_time process),
                      p_mode = or_str (rp_exec_mode process) (js ''unknown''),
                      p_script = or_str (rp_pm_exec_path process) [],
                      p_error_log = PM2_LOG_DIR w @ js ''/'' @ name @ js ''-error.log'',
                      p_out_log = PM2_LOG_DIR w @ js ''/'' @ name @ js ''-out.log''\<rparr>, w1))
      | Inl msg \<Rightarrow>
          (None, service_log (js ''Error getting PM2 process '' @ name @ js '': '' @ msg) w1))"

section \<open>Process Control\<close>

definition restartPM2Process :: "jsstring \<Rightarrow> world \<Rightarrow> (bool \<times> jsstring) \<times> world" where
  "restartPM2Process name w =
     (let (process, w1) = getPM2Process name w in
      case process of
        None \<Rightarrow> ((False, js ''Process '' @ name @ js '' not found''), w1)
      | Some _ \<Rightarrow>
          (let w2 = service_log (js ''Restarting PM2 process: '' @ name) w1;
               (r, w3) = execAsync (js ''pm2 restart '' @ name) w2 in
           case r of
             Inl msg \<Rightarrow>
               ((False, js ''Failed to restart '' @ name @ js '': '' @ msg),
                service_log (js ''Error restarting PM2 process '' @ name @ js '': '' @ msg) w3)
           | Inr (stdout, stderr) \<Rightarrow>
               (let w4 = service_log (js ''PM2 restart output for '' @ name @ js '': '' @ stdout) w3;
                    w5 = (if stderr \<noteq> []
                          then service_log (js ''PM2 restart stderr for '' @ name @ js '': '' @ stderr) w4
                          else w4) in
                ((True, js ''Process '' @ name @ js '' restarted successfully''), w5))))"

section \<open>HTTP control surface\<close>

text \<open>
  \<^verbatim>\<open>sendJSON(res, statusCode, data)\<close> is the pair of the status code and the data. The
  handlers below take the service name as the router has cut it out of the path.
\<close>

type_synonym response = "nat \<times> jsval"

definition post_restart :: "jsstring \<Rightarrow> world \<Rightarrow> response \<times> world" where
  "post_restart serviceName w =
     (if serviceName = []
      then ((400, JObj [(''status'', JStr (js ''error'')),
                        (''message'', JStr (js ''Service name is required''))]), w)
      else
        (let (result, w1) = restartPM2Process serviceName w in
         if fst result
         then ((200, JObj [(''status'', JStr (js ''success'')),
                           (''message'', JStr (snd result)),
                           (''service'', JStr serviceName)]), w1)
         else ((404, JObj [(''status'', JStr (js ''error'')),
                           (''message'', JStr (snd result))]), w1)))"

text \<open>The mapping of one line of a log file to an entry of the \<^verbatim>\<open>logs\<close> array.\<close>

definition log_entry :: "string \<Rightarrow> jsstring \<Rightarrow> jsval" where
  "log_entry ty line =
     JObj [(''type'', JStr (js ty)), (''message'', JStr line), (''timestamp'', JNull)]"

text \<open>
  Reading one of the two log files in \<^verbatim>\<open>GET /pm2/[name]/logs\<close>: nothing when the file does
  not exist, and nothing but a logged message when reading it throws.
\<close>

definition read_log :: "jsstring \<Rightarrow> string \<Rightarrow> world \<Rightarrow> jsval list \<times> world" where
  "read_log path ty w =
     (if existsSync path w
      then (case readFileSync path w of
              Inr content \<Rightarrow> (map (log_entry ty) (nonblank_lines content), w)
            | Inl msg \<Rightarrow> ([], service_log (js ''Error reading '' @ js ty @ js '' log: '' @ msg) w))
      else ([], w))"

definition get_logs :: "jsstring \<Rightarrow> world \<Rightarrow> response \<times> world" where
  "get_logs serviceName w =
     (if serviceName = []
      then ((400, JObj [(''status'', JStr (js ''error'')),
                        (''message'', JStr (js ''Service name is required''))]), w)
      else
        (let (process, w1) = getPM2Process serviceName w in
         case process of
           None \<Rightarrow>
             ((404, JObj [(''status'', JStr (js ''error'')),
                          (''message'', JStr (js ''Service '' @ serviceName @ js '' not found''))]),
              w1)
         | Some p \<Rightarrow>
             (let (outLogs, w2) = read_log (p_out_log p) ''out'' w1;
                  (errorLogs, w3) = read_log (p_error_log p) ''error'' w2;
                  allLogs = rev (outLogs @ errorLogs) in
              ((200, JObj [(''status'', JStr (js ''success'')),
                           (''service'', JStr serviceName),
                           (''logs'', JArr (take 1000 allLogs)),
                           (''totalLines'', JNum (length allLogs)),
                           (''outLogLines'', JNum (length outLogs)),
                           (''errorLogLines'', JNum (length errorLogs))]), w3))))"

section \<open>Log streaming\<close>

text \<open>
  The messages the gateway writes to a socket with \<^verbatim>\<open>ws.send(JSON.stringify(...))\<close>:
  \<open>Connected message process logType\<close>, \<open>LogMsg process logType message\<close> (its
  \<^verbatim>\<open>timestamp\<close>, the wall clock at the moment of sending, is left out),
  \<open>ErrorMsg message\<close> and \<open>Pong\<close>.
\<close>

datatype message =
    Connected jsstring jsstring jsstring
  | LogMsg jsstring jsstring jsstring
  | ErrorMsg jsstring
  | Pong

fun is_log :: "message \<Rightarrow> bool" where
  "is_log (LogMsg _ _ _) = True"
| "is_log _ = False"

fun is_connected :: "message \<Rightarrow> bool" where
  "is_connected (Connected _ _ _) = True"
| "is_connected _ = False"

text \<open>
  A child process started by \<^verbatim>\<open>spawn('tail', ['-f', '-n', '0', path])\<close>. The program is
  not part of the repository; what is recorded of it is what its command line fixes.
  \<^verbatim>\<open>spawn\<close> returns at once, with the child \<open>Starting\<close>. Some time later the child opens
  the path, once: \<open>c_ident\<close> is the identity of the file it opened, and with
  \<^verbatim>\<open>-n 0\<close> it prints nothing of what the file held then (\<open>c_offset\<close> starts at the end);
  it is \<open>Reading\<close> from then on, or \<open>Exited\<close> when it could not open the path. With
  \<^verbatim>\<open>-f\<close> it follows the file it opened, not the name. \<open>c_type\<close> is the log type that the
  handler on its standard output passes to \<^verbatim>\<open>sendLog\<close>, and \<open>c_kills\<close> counts the calls of
  \<^verbatim>\<open>kill()\<close> on it: the child runs while that is \<open>0\<close>.
\<close>

datatype child_state = Starting | Reading | Exited

record child =
  c_path :: jsstring
  c_type :: jsstring
  c_state :: child_state
  c_ident :: nat
  c_offset :: nat
  c_kills :: nat

text \<open>
  One connection: the socket (\<open>readyState\<close>, the messages sent on it, the call of
  \<^verbatim>\<open>ws.close\<close> if there was one), the children spawned for it in the order of their
  start, and the variables of the closures of \<^verbatim>\<open>streamLogs\<close> and of the connection
  handler: \<open>tailProcess\<close> (an index into \<open>children\<close>), \<open>watchers\<close>, whether the handlers
  for \<^verbatim>\<open>message\<close>, \<^verbatim>\<open>close\<close> and \<^verbatim>\<open>error\<close> are attached (\<open>listening\<close>) and whether
  \<^verbatim>\<open>wsConnections\<close> holds an entry for the socket (\<open>registered\<close>).
\<close>

record conn =
  processName :: jsstring
  readyState :: nat
  sent :: "message list"
  close_call :: "(nat \<times> jsstring) option"
  children :: "child list"
  tailProcess :: "nat option"
  watchers :: "jsstring list"
  listening :: bool
  registered :: bool

definition fresh_ws :: conn where
  "fresh_ws =
     \<lparr>processName = [], readyState = 1, sent = [], close_call = None, children = [],
      tailProcess = None, watchers = [], listening = False, registered = False\<rparr>"

text \<open>\<^verbatim>\<open>ws.send\<close> delivers nothing on a socket that is not open; \<^verbatim>\<open>ws.close\<close> starts closing.\<close>

definition ws_send :: "message \<Rightarrow> conn \<Rightarrow> conn" where
  "ws_send m c = (if readyState c = 1 then c\<lparr>sent := sent c @ [m]\<rparr> else c)"

definition ws_close :: "nat \<Rightarrow> jsstring \<Rightarrow> conn \<Rightarrow> conn" where
  "ws_close code reason c = c\<lparr>close_call := Some (code, reason), readyState := 2\<rparr>"

definition sendLog :: "jsstring \<Rightarrow> jsstring \<Rightarrow> conn \<Rightarrow> conn" where
  "sendLog line ty c =
     (if readyState c = 1 then ws_send (LogMsg (processName c) ty line) c else c)"

definition readExistingLogs :: "jsstring \<Rightarrow> jsstring \<Rightarrow> conn \<times> world \<Rightarrow> conn \<times> world" where
  "readExistingLogs filePath ty s =
     (let (c, w) = s in
      if existsSync filePath w
      then (case readFileSync filePath w of
              Inr content \<Rightarrow>
                (let lines = nonblank_lines content;
                     recentLines = drop (length lines - 100) lines in
                 (foldl (\<lambda>c line. sendLog line ty c) c recentLines, w))
            | Inl msg \<Rightarrow> (c, service_log (js ''Error reading existing logs: '' @ msg) w))
      else (c, w))"

definition tail_child :: "jsstring \<Rightarrow> jsstring \<Rightarrow> child" where
  "tail_child path ty =
     \<lparr>c_path = path, c_type = ty, c_state = Starting, c_ident = 0, c_offset = 0, c_kills = 0\<rparr>"

definition spawn_tail :: "jsstring \<Rightarrow> jsstring \<Rightarrow> conn \<times> world \<Rightarrow> conn \<times> world" where
  "spawn_tail path ty s =
     ((fst s)\<lparr>children := children (fst s) @ [tail_child path ty]\<rparr>, snd s)"

definition startTailing :: "jsstring \<Rightarrow> conn \<times> world \<Rightarrow> conn \<times> world" where
  "startTailing logType s =
     (let outLogPath = PM2_LOG_DIR (snd s) @ js ''/'' @ processName (fst s) @ js ''-out.log'';
          errorLogPath = PM2_LOG_DIR (snd s) @ js ''/'' @ processName (fst s) @ js ''-error.log'';
          s1 = (if logType = js ''both'' \<or> logType = js ''out''
                then (if existsSync outLogPath (snd s)
                      then (let (c, w) = spawn_tail outLogPath (js ''out'')
                                           (readExistingLogs outLogPath (js ''out'') s) in
                            (c\<lparr>tailProcess := Some (length (children c) - 1)\<rparr>, w))
                      else s)
                else s) in
      if logType = js ''both'' \<or> logType = js ''error''
      then (if existsSync errorLogPath (snd s1)
            then spawn_tail errorLogPath (js ''error'')
                   (readExistingLogs errorLogPath (js ''error'') s1)
            else s1)
      else s1)"

definition kill :: "child \<Rightarrow> child" where
  "kill ch = ch\<lparr>c_kills := Suc (c_kills ch)\<rparr>"

definition cleanup :: "conn \<Rightarrow> conn" where
  "cleanup c =
     (case tailProcess c of
        Some i \<Rightarrow> c\<lparr>children := (children c)[i := kill (children c ! i)], watchers := []\<rparr>
      | None \<Rightarrow> c\<lparr>watchers := []\<rparr>)"

definition streamLogs :: "jsstring \<Rightarrow> conn \<times> world \<Rightarrow> conn \<times> world" where
  "streamLogs logType s =
     (let (c, w) = startTailing logType ((fst s)\<lparr>tailProcess := None, watchers := []\<rparr>, snd s) in
      (c\<lparr>listening := True\<rparr>, w))"

text \<open>The handler of a \<^verbatim>\<open>data\<close> event on the standard output of child \<open>i\<close>.\<close>

definition on_tail_data :: "nat \<Rightarrow> jsstring \<Rightarrow> conn \<Rightarrow> conn" where
  "on_tail_data i dat c =
     (if i < length (children c)
      then foldl (\<lambda>a line. sendLog line (c_type (children c ! i)) a) c (nonblank_lines dat)
      else c)"

definition on_tail_stderr :: "jsstring \<Rightarrow> conn \<times> world \<Rightarrow> conn \<times> world" where
  "on_tail_stderr dat s =
     (fst s, service_log (js ''Tail stderr for '' @ processName (fst s) @ js '': '' @ dat) (snd s))"

text \<open>What a client sends: text that \<^verbatim>\<open>JSON.parse\<close> rejects, or a parsed value.\<close>

datatype client_data = NotJson | Json jsval

definition on_message :: "client_data \<Rightarrow> conn \<Rightarrow> conn" where
  "on_message d c =
     (case d of
        Json v \<Rightarrow> if get_field ''type'' v = Some (JStr (js ''ping'')) then ws_send Pong c else c
      | NotJson \<Rightarrow> c)"

text \<open>
  A \<^verbatim>\<open>close\<close> event runs the listener that \<^verbatim>\<open>streamLogs\<close> attached (\<open>cleanup\<close>) and then
  the listener of the connection handler, which calls \<open>cleanup\<close> again through the entry
  of \<^verbatim>\<open>wsConnections\<close> and deletes the entry. An \<^verbatim>\<open>error\<close> event does the same. The socket
  is closed before \<^verbatim>\<open>close\<close> is emitted and closing before \<^verbatim>\<open>error\<close> is.
\<close>

definition on_close :: "conn \<times> world \<Rightarrow> conn \<times> world" where
  "on_close s =
     (let c = (fst s)\<lparr>readyState := 3\<rparr> in
      if listening c
      then (let c1 = cleanup c;
                w1 = service_log (js ''WebSocket disconnected for PM2 process: '' @ processName c)
                       (snd s);
                c2 = (if registered c1 then cleanup c1 else c1) in
            (c2\<lparr>registered := False\<rparr>, w1))
      else (c, snd s))"

definition on_error :: "jsstring \<Rightarrow> conn \<times> world \<Rightarrow> conn \<times> world" where
  "on_error msg s =
     (let c = (fst s)\<lparr>readyState := 2\<rparr> in
      if listening c
      then (let c1 = cleanup c;
                w1 = service_log (js ''WebSocket error for '' @ processName c @ js '': '' @ msg)
                       (snd s);
                c2 = (if registered c1 then cleanup c1 else c1) in
            (c2\<lparr>registered := False\<rparr>, w1))
      else (c, snd s))"

text \<open>
  The handler of \<^verbatim>\<open>wss.on('connection')\<close> for a socket, the process name cut out of the
  path and the \<^verbatim>\<open>type\<close> of the query, run to the end of the promise of \<^verbatim>\<open>getPM2Process\<close>.
\<close>

definition on_connection :: "jsstring \<Rightarrow> jsstring option \<Rightarrow> conn \<times> world \<Rightarrow> conn \<times> world" where
  "on_connection name qtype s =
     (let logType = or_str qtype (js ''both'') in
      if name = []
      then (ws_close 1008 (js ''Process name is required'') (fst s), snd s)
      else
        (let w0 = service_log (js ''WebSocket connection for PM2 process: '' @ name @
                               js '', logType: '' @ logType) (snd s);
             (process, w1) = getPM2Process name w0 in
         case process of
           None \<Rightarrow>
             (ws_close 1008 (js ''Process not found'')
                (ws_send (ErrorMsg (js ''Process '' @ name @ js '' not found'')) (fst s)), w1)
         | Some _ \<Rightarrow>
             (let c1 = ws_send (Connected (js ''Connected to '' @ name @ js '' logs'') name logType)
                         (fst s);
                  (c2, w2) = streamLogs logType (c1\<lparr>processName := name\<rparr>, w1) in
              (c2\<lparr>registered := True\<rparr>, w2))))"

subsection \<open>The environment of a session\<close>

text \<open>
  What happens around an open connection.
  \<^item> A writer appends text to the file at a path, creating it when it is not there.
  \<^item> The file at a path is replaced by a new, empty file of another identity
    (rotation by renaming); the old file keeps its text and may still be written by a
    process that holds it open.
  \<^item> The file at a path is truncated in place: same identity, no text.
  \<^item> A child that was spawned opens its path: from then on it reads the file it
    opened, from the end that file had at that moment. When the path cannot be opened
    the child complains on its standard error and exits.
  \<^item> A child reads. When the file it holds has become shorter than its offset it
    reports the truncation on its standard error and starts again at offset \<open>0\<close>.
    Otherwise text beyond its offset, all of it or only the next \<open>k\<close> code units,
    reaches the handler as one \<^verbatim>\<open>data\<close> event: the pipe between the child and the service
    cuts the child's output into events at any place.
  \<^item> A child writes to its standard error; the client sends a message; the socket
    closes or fails.
\<close>

definition fs_append :: "jsstring \<Rightarrow> jsstring \<Rightarrow> world \<Rightarrow> world" where
  "fs_append p t w =
     w\<lparr>files := (files w)(p \<mapsto>
         (case files w p of
            None \<Rightarrow> \<lparr>f_ident = 0, f_content = t, f_readable = True\<rparr>
          | Some f \<Rightarrow> f\<lparr>f_content := f_content f @ t\<rparr>))\<rparr>"

definition fs_rotate :: "jsstring \<Rightarrow> world \<Rightarrow> world" where
  "fs_rotate p w =
     (case files w p of
        None \<Rightarrow> w\<lparr>files := (files w)(p \<mapsto> \<lparr>f_ident = 0, f_content = [], f_readable = True\<rparr>)\<rparr>
      | Some f \<Rightarrow>
          w\<lparr>files := (files w)(p \<mapsto>
                \<lparr>f_ident = Suc (f_ident f), f_content = [], f_readable = True\<rparr>),
            unlinked := (unlinked w)((p, f_ident f) \<mapsto> f_content f)\<rparr>)"

definition fs_truncate :: "jsstring \<Rightarrow> world \<Rightarrow> world" where
  "fs_truncate p w =
     (case files w p of
        None \<Rightarrow> w
      | Some f \<Rightarrow> w\<lparr>files := (files w)(p \<mapsto> f\<lparr>f_content := []\<rparr>)\<rparr>)"

definition fs_append_old :: "jsstring \<Rightarrow> nat \<Rightarrow> jsstring \<Rightarrow> world \<Rightarrow> world" where
  "fs_append_old p n t w =
     (case unlinked w (p, n) of
        None \<Rightarrow> w
      | Some old \<Rightarrow> w\<lparr>unlinked := (unlinked w)((p, n) \<mapsto> old @ t)\<rparr>)"

text \<open>The text of the file a child holds open: the file at its path, or one that lost its name.\<close>

definition child_text :: "child \<Rightarrow> world \<Rightarrow> jsstring option" where
  "child_text ch w =
     (case files w (c_path ch) of
        Some f \<Rightarrow>
          if f_ident f = c_ident ch then Some (f_content f)
          else unlinked w (c_path ch, c_ident ch)
      | None \<Rightarrow> unlinked w (c_path ch, c_ident ch))"

definition tail_start :: "nat \<Rightarrow> conn \<times> world \<Rightarrow> conn \<times> world" where
  "tail_start i s =
     (let (c, w) = s in
      if i < length (children c) \<and> c_state (children c ! i) = Starting \<and>
         c_kills (children c ! i) = 0
      then (case readFileSync (c_path (children c ! i)) w of
              Inr content \<Rightarrow>
                (c\<lparr>children := (children c)
                      [i := (children c ! i)
                         \<lparr>c_state := Reading,
                          c_ident := (case files w (c_path (children c ! i)) of
                                        Some f \<Rightarrow> f_ident f | None \<Rightarrow> 0),
                          c_offset := length content\<rparr>]\<rparr>, w)
            | Inl msg \<Rightarrow>
                on_tail_stderr (js ''tail: cannot open '' @ c_path (children c ! i) @ js '': '' @ msg)
                  (c\<lparr>children := (children c)[i := (children c ! i)\<lparr>c_state := Exited\<rparr>]\<rparr>, w))
      else (c, w))"

definition tail_read :: "nat \<Rightarrow> nat option \<Rightarrow> conn \<times> world \<Rightarrow> conn \<times> world" where
  "tail_read i k s =
     (let (c, w) = s in
      if i < length (children c) \<and> c_state (children c ! i) = Reading \<and>
         c_kills (children c ! i) = 0
      then (case child_text (children c ! i) w of
              None \<Rightarrow> (c, w)
            | Some txt \<Rightarrow>
                if length txt < c_offset (children c ! i)
                then on_tail_stderr (js ''tail: '' @ c_path (children c ! i) @ js '': file truncated'')
                       (c\<lparr>children := (children c)[i := (children c ! i)\<lparr>c_offset := 0\<rparr>]\<rparr>, w)
                else
                  (let rest = drop (c_offset (children c ! i)) txt;
                       chunk = (case k of None \<Rightarrow> rest | Some n \<Rightarrow> take n rest) in
                   if chunk = [] then (c, w)
                   else (on_tail_data i chunk
                           (c\<lparr>children := (children c)
                                 [i := (children c ! i)
                                    \<lparr>c_offset := c_offset (children c ! i) + length chunk\<rparr>]\<rparr>),
                         w)))
      else (c, w))"

datatype event =
    FsAppend jsstring jsstring
  | FsRotate jsstring
  | FsTruncate jsstring
  | FsAppendOld jsstring nat jsstring
  | TailStart nat
  | TailPoll nat
  | TailChunk nat nat
  | TailStderr nat jsstring
  | ClientMessage client_data
  | WsClose
  | WsError jsstring

fun step :: "event \<Rightarrow> conn \<times> world \<Rightarrow> conn \<times> world" where
  "step (FsAppend p t) s = (fst s, fs_append p t (snd s))"
| "step (FsRotate p) s = (fst s, fs_rotate p (snd s))"
| "step (FsTruncate p) s = (fst s, fs_truncate p (snd s))"
| "step (FsAppendOld p n t) s = (fst s, fs_append_old p n t (snd s))"
| "step (TailStart i) s = tail_start i s"
| "step (TailPoll i) s = tail_read i None s"
| "step (TailChunk i k) s = tail_read i (Some k) s"
| "step (TailStderr i dat) s = (if i < length (children (fst s)) then on_tail_stderr dat s else s)"
| "step (ClientMessage d) s = (if listening (fst s) then (on_message d (fst s), snd s) else s)"
| "step WsClose s = on_close s"
| "step (WsError msg) s = on_error msg s"

fun run :: "event list \<Rightarrow> conn \<times> world \<Rightarrow> conn \<times> world" where
  "run [] s = s"
| "run (e # es) s = run es (step e s)"

section \<open>Reference notions for the statements\<close>

text \<open>
  The lines of the file at a path that hold a character other than white space; none
  when the file is missing or cannot be read.
\<close>

definition visible_lines :: "jsstring \<Rightarrow> world \<Rightarrow> jsstring list" where
  "visible_lines p w =
     (case files w p of
        None \<Rightarrow> []
      | Some f \<Rightarrow>
          if f_readable f
          then filter (\<lambda>l. \<exists>c \<in> set l. \<not> is_ws c) (split_nl (f_content f))
          else [])"

text \<open>The text of a file that holds the given lines, each ended by a newline.\<close>

definition text_of_lines :: "jsstring list \<Rightarrow> jsstring" where
  "text_of_lines ls = concat (map (\<lambda>l. l @ [NL]) ls)"

text \<open>
  A supervised process writes a line to its standard output (\<open>''out''\<close>) or standard
  error (\<open>''error''\<close>): the line goes to the end of the log file the supervisor keeps for
  that stream. \<open>written\<close> replays a history of such writes, oldest first.
\<close>

definition log_path :: "jsstring \<Rightarrow> string \<Rightarrow> world \<Rightarrow> jsstring" where
  "log_path name ty w = PM2_LOG_DIR w @ js ''/'' @ name @ js ''-'' @ js ty @ js ''.log''"

definition write_line :: "jsstring \<Rightarrow> string \<times> jsstring \<Rightarrow> world \<Rightarrow> world" where
  "write_line name x w = fs_append (log_path name (fst x) w) (snd x @ [NL]) w"

definition written :: "jsstring \<Rightarrow> (string \<times> jsstring) list \<Rightarrow> world \<Rightarrow> world" where
  "written name hist w = foldl (\<lambda>w x. write_line name x w) w hist"

text \<open>
  The last hundred non-blank lines of the file at a path, the lines that
  \<^verbatim>\<open>readExistingLogs\<close> replays; none when the file cannot be read.
\<close>

definition backlog :: "jsstring \<Rightarrow> world \<Rightarrow> jsstring list" where
  "backlog p w =
     (case readFileSync p w of
        Inr content \<Rightarrow> drop (length (nonblank_lines content) - 100) (nonblank_lines content)
      | Inl msg \<Rightarrow> [])"

text \<open>
  Child \<open>i\<close> of a session follows the file at path \<open>p\<close>: the socket is open, the child
  has opened the file that is at the path now, it runs, and it has read all of it.
\<close>

definition following :: "nat \<Rightarrow> jsstring \<Rightarrow> conn \<times> world \<Rightarrow> bool" where
  "following i p s \<longleftrightarrow>
     readyState (fst s) = 1 \<and> i < length (children (fst s)) \<and>
     (case files (snd s) p of
        None \<Rightarrow> False
      | Some f \<Rightarrow>
          c_path (children (fst s) ! i) = p \<and> c_state (children (fst s) ! i) = Reading \<and>
          c_kills (children (fst s) ! i) = 0 \<and> c_ident (children (fst s) ! i) = f_ident f \<and>
          c_offset (children (fst s) ! i) = length (f_content f))"

text \<open>
  Child \<open>i\<close> can read: it has opened its file, it runs, and the file it holds has text
  beyond what the child has read.
\<close>

definition can_read :: "nat \<Rightarrow> conn \<times> world \<Rightarrow> bool" where
  "can_read i s \<longleftrightarrow>
     i < length (children (fst s)) \<and> c_state (children (fst s) ! i) = Reading \<and>
     c_kills (children (fst s) ! i) = 0 \<and>
     (case child_text (children (fst s) ! i) (snd s) of
        None \<Rightarrow> False
      | Some txt \<Rightarrow> c_offset (children (fst s) ! i) < length txt)"

text \<open>
  Child \<open>i\<close> is stale for path \<open>p\<close>: it holds a file it opened at \<open>p\<close>, the file at \<open>p\<close> now
  is a later one, and the child has read all of the file it holds.
\<close>

definition stale :: "nat \<Rightarrow> jsstring \<Rightarrow> conn \<times> world \<Rightarrow> bool" where
  "stale i p s \<longleftrightarrow>
     i < length (children (fst s)) \<and> c_path (children (fst s) ! i) = p \<and>
     c_state (children (fst s) ! i) = Reading \<and>
     (case files (snd s) p of
        None \<Rightarrow> False
      | Some f \<Rightarrow> c_ident (children (fst s) ! i) < f_ident f) \<and>
     (case unlinked (snd s) (p, c_ident (children (fst s) ! i)) of
        None \<Rightarrow> True
      | Some txt \<Rightarrow> c_offset (children (fst s) ! i) = length txt)"

text \<open>
  An event that writes to the file that lost the name \<open>p\<close> and has identity \<open>n\<close>.
\<close>

fun writes_old :: "jsstring \<Rightarrow> nat \<Rightarrow> event \<Rightarrow> bool" where
  "writes_old p n (FsAppendOld q m t) = (q = p \<and> m = n)"
| "writes_old p n _ = False"


definition first_log :: "jsval \<Rightarrow> jsval option" where
  "first_log body =
     (case get_field ''logs'' body of Some (JArr (e # es)) \<Rightarrow> Some e | _ \<Rightarrow> None)"

text \<open>
  A supervisor that knows one process, \<open>app\<close>, over an empty log directory, and a
  supervisor that cannot be reached.
\<close>

definition app_proc :: raw_proc where
  "app_proc =
     \<lparr>rp_name = js ''app'', rp_pid = Some 4242, rp_status = Some (js ''online''),
      rp_pm_uptime = Some 1700000000000, rp_memory = Some 52428800, rp_cpu = Some 0,
      rp_restart_time = Some 3, rp_exec_mode = Some (js ''fork_mode''),
      rp_pm_exec_path = Some (js ''/srv/app/index.js'')\<rparr>"

definition app_world :: world where
  "app_world =
     \<lparr>home = Some (js ''/home/u''), jlist = Inr [app_proc],
      cmd_result = (\<lambda>cmd. Inr ([], [])), files = (\<lambda>p. None), unlinked = (\<lambda>k. None),
      execd = [], logged = []\<rparr>"

definition down_world :: world where
  "down_world = app_world\<lparr>jlist := Inl (js ''Command failed: pm2 jlist'')\<rparr>"

text \<open>The body of a successful answer of \<^verbatim>\<open>GET /pm2/[name]/logs\<close> over given lines.\<close>

definition logs_body :: "jsstring \<Rightarrow> jsstring list \<Rightarrow> jsstring list \<Rightarrow> jsval" where
  "logs_body name outs errs =
     JObj [(''status'', JStr (js ''success'')),
           (''service'', JStr name),
           (''logs'', JArr (take 1000 (rev (map (log_entry ''out'') outs @
                                            map (log_entry ''error'') errs)))),
           (''totalLines'', JNum (length outs + length errs)),
           (''outLogLines'', JNum (length outs)),
           (''errorLogLines'', JNum (length errs))]"

text \<open>
  Two histories of writes by \<open>app\<close>: five lines on standard error followed by ten on
  standard output, and a history with a line of blanks and an empty line.
\<close>

definition late_out_history :: "(string \<times> jsstring) list" where
  "late_out_history =
     [(''error'', js ''e1''), (''error'', js ''e2''), (''error'', js ''e3''),
      (''error'', js ''e4''), (''error'', js ''e5''),
      (''out'', js ''o1''), (''out'', js ''o2''), (''out'', js ''o3''), (''out'', js ''o4''),
      (''out'', js ''o5''), (''out'', js ''o6''), (''out'', js ''o7''), (''out'', js ''o8''),
      (''out'', js ''o9''), (''out'', js ''o10'')]"

definition blank_history :: "(string \<times> jsstring) list" where
  "blank_history = [(''out'', js ''up''), (''out'', js ''  ''), (''out'', []), (''error'', js ''boom'')]"

text \<open>
  A client connects for the logs of \<open>app\<close>, with the given \<^verbatim>\<open>type\<close> in the query, after
  \<open>app\<close> has written the given history.
\<close>

definition app_session :: "jsstring option \<Rightarrow> (string \<times> jsstring) list \<Rightarrow> conn \<times> world" where
  "app_session qtype hist =
     on_connection (js ''app'') qtype (fresh_ws, written (js ''app'') hist app_world)"

definition ping :: event where
  "ping = ClientMessage (Json (JObj [(''type'', JStr (js ''ping''))]))"

section \<open>Lines of a file\<close>

lemma split_nl_not_Nil: "split_nl s \<noteq> []"
  by (induction s) (auto split: list.splits)

lemma split_nl_no_newline: "NL \<notin> set l \<Longrightarrow> split_nl l = [l]"
  by (induction l) auto

lemma split_nl_line: "NL \<notin> set l \<Longrightarrow> split_nl (l @ NL # rest) = l # split_nl rest"
  by (induction l) (auto split: list.splits)

lemma split_nl_lines:
  "\<forall>l \<in> set ls. NL \<notin> set l \<Longrightarrow>
   split_nl (concat (map (\<lambda>l. l @ [NL]) ls) @ rest) = ls @ split_nl rest"
  by (induction ls) (auto simp: split_nl_line)

lemma trim_Nil_iff: "trim s = [] \<longleftrightarrow> (\<forall>c \<in> set s. is_ws c)"
proof
  assume "trim s = []"
  then have "dropWhile is_ws (rev (dropWhile is_ws s)) = []"
    by (simp add: trim_def)
  then have "\<forall>c \<in> set (dropWhile is_ws s). is_ws c"
    by simp
  moreover have "dropWhile is_ws s = [] \<or> \<not> is_ws (hd (dropWhile is_ws s))"
    using hd_dropWhile by blast
  ultimately have "dropWhile is_ws s = []"
    by (cases "dropWhile is_ws s") auto
  then show "\<forall>c \<in> set s. is_ws c"
    by simp
next
  assume "\<forall>c \<in> set s. is_ws c"
  then have d: "dropWhile is_ws s = []"
    by simp
  show "trim s = []"
    unfolding trim_def d by simp
qed

lemma is_ws_NL: "is_ws NL"
  by (simp add: is_ws_def NL_def)

lemma trim_empty: "trim [] = []"
  by (simp add: trim_def)

lemma nonblank_lines_of_lines:
  assumes "\<forall>l \<in> set ls. NL \<notin> set l \<and> trim l \<noteq> []"
  shows "nonblank_lines (concat (map (\<lambda>l. l @ [NL]) ls)) = ls"
proof -
  have "split_nl (concat (map (\<lambda>l. l @ [NL]) ls) @ []) = ls @ split_nl []"
    using assms by (intro split_nl_lines) simp
  moreover have "filter (\<lambda>line. trim line \<noteq> []) ls = ls"
    using assms by (simp add: filter_id_conv)
  ultimately show ?thesis
    by (simp add: nonblank_lines_def trim_empty)
qed

section \<open>The supervisor calls and the combined log\<close>

lemma exec_jlist_simp: "exec_jlist w = (jlist w, w\<lparr>execd := execd w @ [js ''pm2 jlist'']\<rparr>)"
  by (simp add: exec_jlist_def)

lemma getPM2Process_execd: "execd (snd (getPM2Process name w)) = execd w @ [js ''pm2 jlist'']"
  by (simp add: getPM2Process_def exec_jlist_def service_log_def split: sum.splits option.splits)

lemma nonblank_lines_visible:
  "nonblank_lines content = filter (\<lambda>l. \<exists>c \<in> set l. \<not> is_ws c) (split_nl content)"
  by (simp add: nonblank_lines_def trim_Nil_iff)

lemma read_log_entries: "fst (read_log p ty w) = map (log_entry ty) (visible_lines p w)"
  by (simp add: read_log_def visible_lines_def existsSync_def readFileSync_def
      nonblank_lines_visible split: option.splits)

lemma read_log_files: "files (snd (read_log p ty w)) = files w"
  by (simp add: read_log_def service_log_def split: option.splits sum.splits)

lemma getPM2Process_files: "files (snd (getPM2Process name w)) = files w"
  by (simp add: getPM2Process_def exec_jlist_def service_log_def split: sum.splits option.splits)

lemma getPM2Process_paths:
  "fst (getPM2Process name w) = Some p \<Longrightarrow>
   p_out_log p = log_path name ''out'' w \<and> p_error_log p = log_path name ''error'' w"
  by (auto simp: getPM2Process_def exec_jlist_def log_path_def js_def
      split: sum.splits option.splits)

lemma visible_lines_cong: "files w' = files w \<Longrightarrow> visible_lines p w' = visible_lines p w"
  by (simp add: visible_lines_def)

lemma get_logs_found:
  assumes "name \<noteq> []" and "fst (getPM2Process name w) = Some p"
  shows "fst (get_logs name w) =
           (200, logs_body name (visible_lines (log_path name ''out'' w) w)
                                (visible_lines (log_path name ''error'' w) w))"
proof -
  obtain w1 where g: "getPM2Process name w = (Some p, w1)"
    using assms(2) by (cases "getPM2Process name w") simp
  have f1: "files w1 = files w"
    using getPM2Process_files [of name w] g by simp
  obtain outLogs w2 where r1: "read_log (p_out_log p) ''out'' w1 = (outLogs, w2)"
    by (cases "read_log (p_out_log p) ''out'' w1")
  obtain errorLogs w3 where r2: "read_log (p_error_log p) ''error'' w2 = (errorLogs, w3)"
    by (cases "read_log (p_error_log p) ''error'' w2")
  have f2: "files w2 = files w"
    using read_log_files [of "p_out_log p" "''out''" w1] r1 f1 by simp
  have o: "outLogs = map (log_entry ''out'') (visible_lines (log_path name ''out'' w) w)"
    using read_log_entries [of "p_out_log p" "''out''" w1] r1 getPM2Process_paths [OF assms(2)]
      visible_lines_cong [OF f1] by simp
  have e: "errorLogs = map (log_entry ''error'') (visible_lines (log_path name ''error'' w) w)"
    using read_log_entries [of "p_error_log p" "''error''" w2] r2 getPM2Process_paths [OF assms(2)]
      visible_lines_cong [OF f2] by simp
  show ?thesis
    using assms(1) g r1 r2 by (simp add: get_logs_def logs_body_def o e)
qed

lemma get_logs_200:
  assumes "fst (get_logs name w) = (200, body)"
  shows "name \<noteq> [] \<and> (\<exists>p. fst (getPM2Process name w) = Some p)"
proof -
  have n: "name \<noteq> []"
    using assms by (auto simp: get_logs_def)
  have "fst (getPM2Process name w) \<noteq> None"
  proof
    assume "fst (getPM2Process name w) = None"
    then obtain w1 where "getPM2Process name w = (None, w1)"
      by (cases "getPM2Process name w") simp
    then show False
      using assms n by (simp add: get_logs_def)
  qed
  then show ?thesis
    using n by auto
qed

lemma write_line_frame:
  "home (write_line name x w) = home w" "jlist (write_line name x w) = jlist w"
  by (simp_all add: write_line_def fs_append_def)

lemma log_path_write_line: "log_path name ty (write_line name' x w) = log_path name ty w"
  by (simp add: log_path_def PM2_LOG_DIR_def write_line_frame)

lemma files_write_line:
  "files (write_line name x w) p =
     (if p = log_path name (fst x) w
      then Some (case files w p of
                   None \<Rightarrow> \<lparr>f_ident = 0, f_content = snd x @ [NL], f_readable = True\<rparr>
                 | Some f \<Rightarrow> f\<lparr>f_content := f_content f @ snd x @ [NL]\<rparr>)
      else files w p)"
  by (simp add: write_line_def fs_append_def)

lemma written_frame:
  "home (written name hist w) = home w \<and> jlist (written name hist w) = jlist w"
  unfolding written_def
  by (induction hist arbitrary: w) (simp_all add: write_line_frame)

lemma log_path_written: "log_path name ty (written name' hist w) = log_path name ty w"
  by (simp add: log_path_def PM2_LOG_DIR_def written_frame)

lemma files_written:
  "files (written name hist w) p =
     (let ls = map snd (filter (\<lambda>x. log_path name (fst x) w = p) hist) in
      case files w p of
        None \<Rightarrow> if ls = [] then None
                else Some \<lparr>f_ident = 0, f_content = text_of_lines ls, f_readable = True\<rparr>
      | Some f \<Rightarrow> Some (f\<lparr>f_content := f_content f @ text_of_lines ls\<rparr>))"
  unfolding written_def
proof (induction hist arbitrary: w)
  case Nil
  then show ?case by (simp add: text_of_lines_def split: option.splits)
next
  case (Cons x hist)
  show ?case
    by (simp add: Cons.IH log_path_write_line files_write_line text_of_lines_def Let_def
        split: option.splits)
qed

lemma getPM2Process_found:
  "jlist w = Inr ps \<Longrightarrow> find (\<lambda>p. rp_name p = name) ps = Some pr \<Longrightarrow>
   \<exists>p. fst (getPM2Process name w) = Some p"
  by (simp add: getPM2Process_def exec_jlist_def)

lemma visible_lines_text:
  assumes "files w p = Some f" and "f_readable f" and "f_content f = text_of_lines ls"
    and "\<forall>l \<in> set ls. NL \<notin> set l \<and> trim l \<noteq> []"
  shows "visible_lines p w = ls"
  using assms nonblank_lines_of_lines [of ls]
  by (simp add: visible_lines_def text_of_lines_def nonblank_lines_visible)

lemma get_logs_of_lines:
  assumes "name \<noteq> []" and "jlist w = Inr ps" and "find (\<lambda>p. rp_name p = name) ps = Some pr"
    and "files w (log_path name ''out'' w) = Some fo" and "f_readable fo"
    and "f_content fo = text_of_lines outs"
    and "files w (log_path name ''error'' w) = Some fe" and "f_readable fe"
    and "f_content fe = text_of_lines errs"
    and "\<forall>l \<in> set outs. NL \<notin> set l \<and> trim l \<noteq> []"
    and "\<forall>l \<in> set errs. NL \<notin> set l \<and> trim l \<noteq> []"
  shows "fst (get_logs name w) = (200, logs_body name outs errs)"
proof -
  obtain p where "fst (getPM2Process name w) = Some p"
    using getPM2Process_found [OF assms(2,3)] by blast
  then show ?thesis
    using get_logs_found [OF assms(1), of w p]
      visible_lines_text [OF assms(4,5,6,10)] visible_lines_text [OF assms(7,8,9,11)]
    by simp
qed

lemma first_log_body:
  "first_log (logs_body name outs errs) =
     (if errs \<noteq> [] then Some (log_entry ''error'' (last errs))
      else if outs \<noteq> [] then Some (log_entry ''out'' (last outs)) else None)"
proof -
  have "\<And>xs::jsval list. first_log (JObj [(''status'', a), (''service'', b), (''logs'', JArr xs), (''totalLines'', c), (''outLogLines'', d), (''errorLogLines'', e)]) = (case xs of [] \<Rightarrow> None | x # _ \<Rightarrow> Some x)" for a b c d e
    by (simp add: first_log_def split: list.splits)
  then have "first_log (logs_body name outs errs) =
    (case take 1000 (rev (map (log_entry ''out'') outs @ map (log_entry ''error'') errs)) of [] \<Rightarrow> None | x # _ \<Rightarrow> Some x)"
    by (simp add: logs_body_def)
  also have "\<dots> = (if errs \<noteq> [] then Some (log_entry ''error'' (last errs))
      else if outs \<noteq> [] then Some (log_entry ''out'' (last outs)) else None)"
  proof (cases errs rule: rev_cases)
    case Nil
    then show ?thesis by (cases outs rule: rev_cases) simp_all
  next
    case (snoc ys y)
    then show ?thesis by simp
  qed
  finally show ?thesis .
qed

lemma late_out_files:
  "files (written (js ''app'') late_out_history app_world) (log_path (js ''app'') ''out'' app_world) =
     Some \<lparr>f_ident = 0, f_content = text_of_lines [js ''o1'', js ''o2'', js ''o3'', js ''o4'', js ''o5'',
       js ''o6'', js ''o7'', js ''o8'', js ''o9'', js ''o10''], f_readable = True\<rparr>"
  "files (written (js ''app'') late_out_history app_world) (log_path (js ''app'') ''error'' app_world) =
     Some \<lparr>f_ident = 0, f_content = text_of_lines [js ''e1'', js ''e2'', js ''e3'', js ''e4'', js ''e5''], f_readable = True\<rparr>"
  by (simp_all add: files_written late_out_history_def log_path_def PM2_LOG_DIR_def app_world_def js_def)

lemma lines_ok_out:
  "\<forall>l \<in> set [js ''o1'', js ''o2'', js ''o3'', js ''o4'', js ''o5'',
       js ''o6'', js ''o7'', js ''o8'', js ''o9'', js ''o10'']. NL \<notin> set l \<and> trim l \<noteq> []"
  by (simp add: js_def NL_def trim_def is_ws_def)

lemma lines_ok_err:
  "\<forall>l \<in> set [js ''e1'', js ''e2'', js ''e3'', js ''e4'', js ''e5'']. NL \<notin> set l \<and> trim l \<noteq> []"
  by (simp add: js_def NL_def trim_def is_ws_def)

lemma app_found:
  "jlist (written (js ''app'') hist app_world) = Inr [app_proc]"
  "find (\<lambda>p. rp_name p = js ''app'') [app_proc] = Some app_proc"
  "js ''app'' \<noteq> []"
  by (simp_all add: written_frame app_world_def app_proc_def js_def)

lemma late_out_response:
  "fst (get_logs (js ''app'') (written (js ''app'') late_out_history app_world)) =
     (200, logs_body (js ''app'')
        [js ''o1'', js ''o2'', js ''o3'', js ''o4'', js ''o5'', js ''o6'', js ''o7'', js ''o8'',
         js ''o9'', js ''o10'']
        [js ''e1'', js ''e2'', js ''e3'', js ''e4'', js ''e5''])"
proof -
  have o: "files (written (js ''app'') late_out_history app_world)
             (log_path (js ''app'') ''out'' (written (js ''app'') late_out_history app_world)) =
           Some \<lparr>f_ident = 0, f_content = text_of_lines [js ''o1'', js ''o2'', js ''o3'',
             js ''o4'', js ''o5'', js ''o6'', js ''o7'', js ''o8'', js ''o9'', js ''o10''],
             f_readable = True\<rparr>"
    by (simp add: log_path_written late_out_files)
  have e: "files (written (js ''app'') late_out_history app_world)
             (log_path (js ''app'') ''error'' (written (js ''app'') late_out_history app_world)) =
           Some \<lparr>f_ident = 0, f_content = text_of_lines [js ''e1'', js ''e2'', js ''e3'',
             js ''e4'', js ''e5''], f_readable = True\<rparr>"
    by (simp add: log_path_written late_out_files)
  show ?thesis
    by (rule get_logs_of_lines [OF app_found(3) app_found(1) app_found(2) o _ _ e _ _
          lines_ok_out lines_ok_err]) simp_all
qed

lemma blank_files:
  "visible_lines (log_path (js ''app'') ''out'' app_world) (written (js ''app'') blank_history app_world) = [js ''up'']"
  "visible_lines (log_path (js ''app'') ''error'' app_world) (written (js ''app'') blank_history app_world) = [js ''boom'']"
  by (simp_all add: visible_lines_def files_written blank_history_def log_path_def PM2_LOG_DIR_def
      app_world_def js_def text_of_lines_def NL_def is_ws_def)

lemma blank_response:
  "fst (get_logs (js ''app'') (written (js ''app'') blank_history app_world)) =
     (200, logs_body (js ''app'') [js ''up''] [js ''boom''])"
proof -
  obtain p where "fst (getPM2Process (js ''app'') (written (js ''app'') blank_history app_world)) = Some p"
    using getPM2Process_found [OF app_found(1) app_found(2)] by blast
  then show ?thesis
    using get_logs_found [OF app_found(3), of "written (js ''app'') blank_history app_world" p]
    by (simp add: log_path_written blank_files)
qed

lemma get_logs_has_logs:
  assumes "get_field ''logs'' (snd (fst (get_logs name w))) = Some v"
  shows "name \<noteq> [] \<and> (\<exists>p. fst (getPM2Process name w) = Some p)"
proof -
  have n: "name \<noteq> []"
    using assms by (auto simp: get_logs_def)
  have "fst (getPM2Process name w) \<noteq> None"
  proof
    assume "fst (getPM2Process name w) = None"
    then obtain w1 where "getPM2Process name w = (None, w1)"
      by (cases "getPM2Process name w") simp
    then show False
      using assms n by (simp add: get_logs_def)
  qed
  then show ?thesis
    using n by auto
qed

section \<open>Sessions: sending, opening\<close>

subsection \<open>Sending\<close>

lemma sendLog_eq:
  "sendLog line ty c =
     c\<lparr>sent := sent c @ (if readyState c = 1 then [LogMsg (processName c) ty line] else [])\<rparr>"
  by (simp add: sendLog_def ws_send_def)

lemma send_lines:
  "foldl (\<lambda>a line. sendLog line ty a) c ls =
     c\<lparr>sent := sent c @ (if readyState c = 1 then map (LogMsg (processName c) ty) ls else [])\<rparr>"
  by (induction ls arbitrary: c) (simp_all add: sendLog_eq)

lemma on_tail_data_eq:
  "on_tail_data i dat c =
     (if i < length (children c)
      then c\<lparr>sent := sent c @
             (if readyState c = 1
              then map (LogMsg (processName c) (c_type (children c ! i))) (nonblank_lines dat)
              else [])\<rparr>
      else c)"
  by (simp add: on_tail_data_def send_lines)

lemma readExistingLogs_eq:
  "readExistingLogs p ty (c, w) =
     (if existsSync p w
      then (c\<lparr>sent := sent c @
               (if readyState c = 1 then map (LogMsg (processName c) ty) (backlog p w) else [])\<rparr>,
            case readFileSync p w of
              Inr content \<Rightarrow> w
            | Inl msg \<Rightarrow> service_log (js ''Error reading existing logs: '' @ msg) w)
      else (c, w))"
  by (simp add: readExistingLogs_def backlog_def send_lines Let_def split: sum.splits)


subsection \<open>Frames\<close>

lemma service_log_frame [simp]:
  "files (service_log m w) = files w" "home (service_log m w) = home w"
  "jlist (service_log m w) = jlist w" "execd (service_log m w) = execd w"
  by (simp_all add: service_log_def)

lemma fs_frame [simp]:
  "existsSync p (service_log m w) = existsSync p w"
  "readFileSync p (service_log m w) = readFileSync p w"
  "backlog p (service_log m w) = backlog p w"
  "PM2_LOG_DIR (service_log m w) = PM2_LOG_DIR w"
  by (simp_all add: existsSync_def readFileSync_def backlog_def PM2_LOG_DIR_def)

lemma readExistingLogs_world:
  "files (snd (readExistingLogs p ty s)) = files (snd s)"
  "home (snd (readExistingLogs p ty s)) = home (snd s)"
  by (cases s; simp add: readExistingLogs_eq split: sum.splits)+

lemma world_cong:
  assumes "files w' = files w" and "home w' = home w"
  shows "existsSync p w' = existsSync p w" and "backlog p w' = backlog p w"
    and "PM2_LOG_DIR w' = PM2_LOG_DIR w"
    and "readFileSync p w' = readFileSync p w"
  using assms
  by (simp_all add: existsSync_def readFileSync_def backlog_def PM2_LOG_DIR_def)

lemma startTailing_conn:
  "fst (startTailing lt (c, w)) =
     c\<lparr>sent := sent c @
         (if readyState c = 1
          then (if (lt = js ''both'' \<or> lt = js ''out'') \<and>
                   existsSync (PM2_LOG_DIR w @ js ''/'' @ processName c @ js ''-out.log'') w
                then map (LogMsg (processName c) (js ''out''))
                       (backlog (PM2_LOG_DIR w @ js ''/'' @ processName c @ js ''-out.log'') w)
                else []) @
               (if (lt = js ''both'' \<or> lt = js ''error'') \<and>
                   existsSync (PM2_LOG_DIR w @ js ''/'' @ processName c @ js ''-error.log'') w
                then map (LogMsg (processName c) (js ''error''))
                       (backlog (PM2_LOG_DIR w @ js ''/'' @ processName c @ js ''-error.log'') w)
                else [])
          else []),
       children := children c @
         (if (lt = js ''both'' \<or> lt = js ''out'') \<and>
             existsSync (PM2_LOG_DIR w @ js ''/'' @ processName c @ js ''-out.log'') w
          then [tail_child (PM2_LOG_DIR w @ js ''/'' @ processName c @ js ''-out.log'') (js ''out'')]
          else []) @
         (if (lt = js ''both'' \<or> lt = js ''error'') \<and>
             existsSync (PM2_LOG_DIR w @ js ''/'' @ processName c @ js ''-error.log'') w
          then [tail_child (PM2_LOG_DIR w @ js ''/'' @ processName c @ js ''-error.log'') (js ''error'')]
          else []),
       tailProcess :=
         (if (lt = js ''both'' \<or> lt = js ''out'') \<and>
             existsSync (PM2_LOG_DIR w @ js ''/'' @ processName c @ js ''-out.log'') w
          then Some (length (children c)) else tailProcess c)\<rparr>"
  by (simp add: startTailing_def spawn_tail_def readExistingLogs_eq Let_def split: sum.splits)

lemma startTailing_world:
  "files (snd (startTailing lt s)) = files (snd s)"
  "home (snd (startTailing lt s)) = home (snd s)"
  by (cases s; simp add: startTailing_def spawn_tail_def readExistingLogs_eq Let_def split: sum.splits)+

subsection \<open>Opening a session\<close>

lemma log_path_out_error:
  "PM2_LOG_DIR w @ js ''/'' @ name @ js ''-out.log'' = log_path name ''out'' w"
  "PM2_LOG_DIR w @ js ''/'' @ name @ js ''-error.log'' = log_path name ''error'' w"
  by (simp_all add: log_path_def js_def)

lemma getPM2Process_world:
  "files (snd (getPM2Process name w)) = files w" "home (snd (getPM2Process name w)) = home w"
  by (simp_all add: getPM2Process_def exec_jlist_def service_log_def split: sum.splits option.splits)

lemma on_connection_found:
  assumes "name \<noteq> []" and "jlist w = Inr ps" and "find (\<lambda>p. rp_name p = name) ps = Some pr"
  shows "fst (on_connection name qtype (c, w)) =
           (fst (startTailing (or_str qtype (js ''both''))
                  ((ws_send (Connected (js ''Connected to '' @ name @ js '' logs'') name
                               (or_str qtype (js ''both''))) c)
                     \<lparr>processName := name, tailProcess := None, watchers := []\<rparr>,
                   snd (getPM2Process name
                          (service_log (js ''WebSocket connection for PM2 process: '' @ name @
                                        js '', logType: '' @ or_str qtype (js ''both'')) w)))))
             \<lparr>listening := True, registered := True\<rparr>"
    and "files (snd (on_connection name qtype (c, w))) = files w"
    and "home (snd (on_connection name qtype (c, w))) = home w"
proof -
  let ?w0 = "service_log (js ''WebSocket connection for PM2 process: '' @ name @
                          js '', logType: '' @ or_str qtype (js ''both'')) w"
  obtain p w1 where g: "getPM2Process name ?w0 = (Some p, w1)"
    using assms(2,3) by (simp add: getPM2Process_def exec_jlist_def)
  then have w1: "snd (getPM2Process name ?w0) = w1"
    by simp
  let ?s = "((ws_send (Connected (js ''Connected to '' @ name @ js '' logs'') name
                               (or_str qtype (js ''both''))) c)
                     \<lparr>processName := name, tailProcess := None, watchers := []\<rparr>, w1)"
  have eq: "on_connection name qtype (c, w) =
      ((fst (startTailing (or_str qtype (js ''both'')) ?s))\<lparr>listening := True, registered := True\<rparr>,
       snd (startTailing (or_str qtype (js ''both'')) ?s))"
    using assms(1) g
    by (simp add: on_connection_def streamLogs_def Let_def case_prod_beta)
  have fw: "files w1 = files w" "home w1 = home w"
    using getPM2Process_world [of name ?w0] w1 by simp_all
  show "fst (on_connection name qtype (c, w)) =
           (fst (startTailing (or_str qtype (js ''both''))
                  ((ws_send (Connected (js ''Connected to '' @ name @ js '' logs'') name
                               (or_str qtype (js ''both''))) c)
                     \<lparr>processName := name, tailProcess := None, watchers := []\<rparr>,
                   snd (getPM2Process name ?w0))))
             \<lparr>listening := True, registered := True\<rparr>"
    unfolding w1 by (simp add: eq)
  show "files (snd (on_connection name qtype (c, w))) = files w"
    by (simp add: eq startTailing_world fw)
  show "home (snd (on_connection name qtype (c, w))) = home w"
    by (simp add: eq startTailing_world fw)
qed

lemma js_distinct:
  "js ''out'' \<noteq> js ''both''" "js ''out'' \<noteq> js ''error''" "js ''error'' \<noteq> js ''both''"
  "js ''both'' \<noteq> js ''out''" "js ''error'' \<noteq> js ''out''" "js ''both'' \<noteq> js ''error''"
  by (simp_all add: js_def)

lemma startTailing_conn_cong:
  assumes "files w1 = files w" and "home w1 = home w"
  shows "fst (startTailing lt (c, w1)) =
     c\<lparr>sent := sent c @
         (if readyState c = 1
          then (if (lt = js ''both'' \<or> lt = js ''out'') \<and>
                   existsSync (log_path (processName c) ''out'' w) w
                then map (LogMsg (processName c) (js ''out''))
                       (backlog (log_path (processName c) ''out'' w) w)
                else []) @
               (if (lt = js ''both'' \<or> lt = js ''error'') \<and>
                   existsSync (log_path (processName c) ''error'' w) w
                then map (LogMsg (processName c) (js ''error''))
                       (backlog (log_path (processName c) ''error'' w) w)
                else [])
          else []),
       children := children c @
         (if (lt = js ''both'' \<or> lt = js ''out'') \<and>
             existsSync (log_path (processName c) ''out'' w) w
          then [tail_child (log_path (processName c) ''out'' w) (js ''out'')]
          else []) @
         (if (lt = js ''both'' \<or> lt = js ''error'') \<and>
             existsSync (log_path (processName c) ''error'' w) w
          then [tail_child (log_path (processName c) ''error'' w) (js ''error'')]
          else []),
       tailProcess :=
         (if (lt = js ''both'' \<or> lt = js ''out'') \<and>
             existsSync (log_path (processName c) ''out'' w) w
          then Some (length (children c)) else tailProcess c)\<rparr>"
  unfolding startTailing_conn world_cong [OF assms] log_path_out_error ..

lemma opened:
  assumes "name \<noteq> []" and "jlist w = Inr ps" and "find (\<lambda>p. rp_name p = name) ps = Some pr"
  shows "fst (on_connection name qtype (fresh_ws, w)) =
           \<lparr>processName = name, readyState = 1,
            sent = Connected (js ''Connected to '' @ name @ js '' logs'') name
                     (or_str qtype (js ''both'')) #
                   (if (or_str qtype (js ''both'') = js ''both'' \<or>
                        or_str qtype (js ''both'') = js ''out'') \<and>
                       existsSync (log_path name ''out'' w) w
                    then map (LogMsg name (js ''out'')) (backlog (log_path name ''out'' w) w)
                    else []) @
                   (if (or_str qtype (js ''both'') = js ''both'' \<or>
                        or_str qtype (js ''both'') = js ''error'') \<and>
                       existsSync (log_path name ''error'' w) w
                    then map (LogMsg name (js ''error'')) (backlog (log_path name ''error'' w) w)
                    else []),
            close_call = None,
            children =
                   (if (or_str qtype (js ''both'') = js ''both'' \<or>
                        or_str qtype (js ''both'') = js ''out'') \<and>
                       existsSync (log_path name ''out'' w) w
                    then [tail_child (log_path name ''out'' w) (js ''out'')] else []) @
                   (if (or_str qtype (js ''both'') = js ''both'' \<or>
                        or_str qtype (js ''both'') = js ''error'') \<and>
                       existsSync (log_path name ''error'' w) w
                    then [tail_child (log_path name ''error'' w) (js ''error'')] else []),
            tailProcess =
                   (if (or_str qtype (js ''both'') = js ''both'' \<or>
                        or_str qtype (js ''both'') = js ''out'') \<and>
                       existsSync (log_path name ''out'' w) w
                    then Some 0 else None),
            watchers = [], listening = True, registered = True\<rparr>"
proof -
  let ?w0 = "service_log (js ''WebSocket connection for PM2 process: '' @ name @
                          js '', logType: '' @ or_str qtype (js ''both'')) w"
  have f: "files (snd (getPM2Process name ?w0)) = files w"
    and h: "home (snd (getPM2Process name ?w0)) = home w"
    by (simp_all add: getPM2Process_world)
  show ?thesis
    unfolding on_connection_found(1) [OF assms] startTailing_conn_cong [OF f h]
    by (simp add: fresh_ws_def ws_send_def js_distinct)
qed

subsection \<open>Steps of a session\<close>

lemma cleanup_frame [simp]:
  "sent (cleanup c) = sent c" "processName (cleanup c) = processName c"
  "readyState (cleanup c) = readyState c" "tailProcess (cleanup c) = tailProcess c"
  "listening (cleanup c) = listening c" "registered (cleanup c) = registered c"
  "close_call (cleanup c) = close_call c" "length (children (cleanup c)) = length (children c)"
  by (simp_all add: cleanup_def split: option.splits)

lemma kill_frame [simp]:
  "c_path (kill ch) = c_path ch" "c_type (kill ch) = c_type ch" "c_ident (kill ch) = c_ident ch"
  "c_offset (kill ch) = c_offset ch" "c_kills (kill ch) = Suc (c_kills ch)"
  "c_state (kill ch) = c_state ch"
  by (simp_all add: kill_def)

lemma cleanup_child:
  "j < length (children c) \<Longrightarrow>
   children (cleanup c) ! j =
     (if tailProcess c = Some j then kill (children c ! j) else children c ! j)"
  by (auto simp: cleanup_def split: option.splits)

text \<open>What a step never changes in a session.\<close>

lemma step_frame:
  "processName (fst (step e s)) = processName (fst s)"
  "tailProcess (fst (step e s)) = tailProcess (fst s)"
  "length (children (fst (step e s))) = length (children (fst s))"
  by (cases e; cases s;
      simp add: tail_read_def tail_start_def on_tail_data_eq on_tail_stderr_def on_message_def
        ws_send_def on_close_def on_error_def Let_def
        split: option.splits sum.splits client_data.splits)+

lemma step_child:
  assumes "j < length (children (fst s))"
  shows "c_path (children (fst (step e s)) ! j) = c_path (children (fst s) ! j)"
    and "c_type (children (fst (step e s)) ! j) = c_type (children (fst s) ! j)"
    and "c_state (children (fst s) ! j) = Reading \<Longrightarrow>
         c_state (children (fst (step e s)) ! j) = Reading \<and>
         c_ident (children (fst (step e s)) ! j) = c_ident (children (fst s) ! j)"
    and "tailProcess (fst s) \<noteq> Some j \<Longrightarrow>
         c_kills (children (fst (step e s)) ! j) = c_kills (children (fst s) ! j)"
  using assms
  by (cases e; cases s;
      simp add: tail_read_def tail_start_def on_tail_data_eq on_tail_stderr_def on_message_def
        ws_send_def on_close_def on_error_def Let_def cleanup_child nth_list_update
        split: option.splits sum.splits client_data.splits)+

text \<open>
  What a step sends: nothing, a pong, or lines that a child that can read has found.
\<close>

lemma tail_read_sent:
  "\<exists>ms. sent (fst (tail_read i k s)) = sent (fst s) @ ms \<and>
        (\<forall>m \<in> set ms. can_read i s \<and>
           (\<exists>l. m = LogMsg (processName (fst s)) (c_type (children (fst s) ! i)) l))"
proof (cases "can_read i s")
  case True
  then show ?thesis
    by (cases s) (auto simp: tail_read_def on_tail_data_eq on_tail_stderr_def Let_def
        split: option.splits)
next
  case False
  then have "sent (fst (tail_read i k s)) = sent (fst s)"
    by (cases s) (auto simp: tail_read_def can_read_def on_tail_stderr_def Let_def
        split: option.splits)
  then show ?thesis by simp
qed

lemma step_sent:
  "\<exists>ms. sent (fst (step e s)) = sent (fst s) @ ms \<and>
        (\<forall>m \<in> set ms. m = Pong \<or>
           (\<exists>i l. can_read i s \<and>
                  m = LogMsg (processName (fst s)) (c_type (children (fst s) ! i)) l))"
proof (cases e)
  case (TailPoll i)
  obtain ms where a: "sent (fst (tail_read i None s)) = sent (fst s) @ ms"
    and b: "\<forall>m \<in> set ms. can_read i s \<and>
           (\<exists>l. m = LogMsg (processName (fst s)) (c_type (children (fst s) ! i)) l)"
    using tail_read_sent [of i None s] by blast
  have "\<forall>m \<in> set ms. m = Pong \<or>
           (\<exists>i l. can_read i s \<and>
                  m = LogMsg (processName (fst s)) (c_type (children (fst s) ! i)) l)"
    using b by blast
  then show ?thesis
    using a TailPoll by auto
next
  case (TailChunk i k)
  obtain ms where a: "sent (fst (tail_read i (Some k) s)) = sent (fst s) @ ms"
    and b: "\<forall>m \<in> set ms. can_read i s \<and>
           (\<exists>l. m = LogMsg (processName (fst s)) (c_type (children (fst s) ! i)) l)"
    using tail_read_sent [of i "Some k" s] by blast
  have "\<forall>m \<in> set ms. m = Pong \<or>
           (\<exists>i l. can_read i s \<and>
                  m = LogMsg (processName (fst s)) (c_type (children (fst s) ! i)) l)"
    using b by blast
  then show ?thesis
    using a TailChunk by auto
next
  case (ClientMessage d)
  then show ?thesis
    by (cases s) (auto simp: on_message_def ws_send_def split: client_data.splits)
qed (cases s; simp add: tail_start_def on_tail_stderr_def on_close_def on_error_def Let_def
       split: sum.splits)+

lemma run_frame:
  "processName (fst (run evs s)) = processName (fst s)"
  "tailProcess (fst (run evs s)) = tailProcess (fst s)"
  "length (children (fst (run evs s))) = length (children (fst s))"
  by (induction evs arbitrary: s) (simp_all add: step_frame)

lemma run_child:
  assumes "j < length (children (fst s))"
  shows "c_path (children (fst (run evs s)) ! j) = c_path (children (fst s) ! j)"
    and "c_type (children (fst (run evs s)) ! j) = c_type (children (fst s) ! j)"
    and "tailProcess (fst s) \<noteq> Some j \<Longrightarrow>
         c_kills (children (fst (run evs s)) ! j) = c_kills (children (fst s) ! j)"
  using assms
  by (induction evs arbitrary: s) (simp_all add: step_frame step_child)

lemma run_child_reading:
  assumes "j < length (children (fst s))" and "c_state (children (fst s) ! j) = Reading"
  shows "c_state (children (fst (run evs s)) ! j) = Reading \<and>
         c_ident (children (fst (run evs s)) ! j) = c_ident (children (fst s) ! j)"
  using assms
proof (induction evs arbitrary: s)
  case Nil
  then show ?case by simp
next
  case (Cons e evs)
  have 1: "j < length (children (fst (step e s)))"
    using Cons.prems(1) by (simp add: step_frame)
  have 2: "c_state (children (fst (step e s)) ! j) = Reading"
    "c_ident (children (fst (step e s)) ! j) = c_ident (children (fst s) ! j)"
    using step_child(3) [OF Cons.prems] by simp_all
  show ?case
    using Cons.IH [OF 1 2(1)] 2(2) by simp
qed

lemma run_sent:
  "\<exists>ms. sent (fst (run evs s)) = sent (fst s) @ ms \<and>
        (\<forall>m \<in> set ms. m = Pong \<or>
           (\<exists>i l. i < length (children (fst s)) \<and>
                  m = LogMsg (processName (fst s)) (c_type (children (fst s) ! i)) l))"
proof (induction evs arbitrary: s)
  case Nil
  then show ?case by simp
next
  case (Cons e evs)
  obtain ms1 where 1: "sent (fst (step e s)) = sent (fst s) @ ms1"
    and 2: "\<forall>m \<in> set ms1. m = Pong \<or>
           (\<exists>i l. can_read i s \<and>
                  m = LogMsg (processName (fst s)) (c_type (children (fst s) ! i)) l)"
    using step_sent [of e s] by blast
  obtain ms2 where 3: "sent (fst (run evs (step e s))) = sent (fst (step e s)) @ ms2"
    and 4: "\<forall>m \<in> set ms2. m = Pong \<or>
           (\<exists>i l. i < length (children (fst (step e s))) \<and>
                  m = LogMsg (processName (fst (step e s)))
                        (c_type (children (fst (step e s)) ! i)) l)"
    using Cons.IH [of "step e s"] by blast
  have 5: "\<forall>m \<in> set ms1. m = Pong \<or>
           (\<exists>i l. i < length (children (fst s)) \<and>
                  m = LogMsg (processName (fst s)) (c_type (children (fst s) ! i)) l)"
    using 2 by (auto simp: can_read_def)
  have 6: "\<forall>m \<in> set ms2. m = Pong \<or>
           (\<exists>i l. i < length (children (fst s)) \<and>
                  m = LogMsg (processName (fst s)) (c_type (children (fst s) ! i)) l)"
  proof
    fix m assume "m \<in> set ms2"
    then consider "m = Pong"
      | i l where "i < length (children (fst s))"
          "m = LogMsg (processName (fst s)) (c_type (children (fst (step e s)) ! i)) l"
      using 4 by (auto simp: step_frame)
    then show "m = Pong \<or>
           (\<exists>i l. i < length (children (fst s)) \<and>
                  m = LogMsg (processName (fst s)) (c_type (children (fst s) ! i)) l)"
    proof cases
      case 1
      then show ?thesis by simp
    next
      case 2
      then show ?thesis
        using step_child(2) [of i s e] by auto
    qed
  qed
  have "sent (fst (run (e # evs) s)) = sent (fst s) @ (ms1 @ ms2)"
    using 1 3 by simp
  moreover have "\<forall>m \<in> set (ms1 @ ms2). m = Pong \<or>
           (\<exists>i l. i < length (children (fst s)) \<and>
                  m = LogMsg (processName (fst s)) (c_type (children (fst s) ! i)) l)"
    using 5 6 by auto
  ultimately show ?case by blast
qed

subsection \<open>A session on both logs of \<open>app\<close>\<close>

lemma blank_world_files:
  "files (written (js ''app'') blank_history app_world) (js ''/home/u/.pm2/logs/app-out.log'') =
     Some \<lparr>f_ident = 0, f_content = js ''up'' @ [NL] @ js ''  '' @ [NL, NL], f_readable = True\<rparr>"
  "files (written (js ''app'') blank_history app_world) (js ''/home/u/.pm2/logs/app-error.log'') =
     Some \<lparr>f_ident = 0, f_content = js ''boom'' @ [NL], f_readable = True\<rparr>"
  by (simp_all add: files_written blank_history_def log_path_def PM2_LOG_DIR_def app_world_def
      js_def text_of_lines_def)

lemma blank_world_paths:
  "log_path (js ''app'') ''out'' (written (js ''app'') blank_history app_world) =
     js ''/home/u/.pm2/logs/app-out.log''"
  "log_path (js ''app'') ''error'' (written (js ''app'') blank_history app_world) =
     js ''/home/u/.pm2/logs/app-error.log''"
  by (simp_all add: log_path_written) (simp_all add: log_path_def PM2_LOG_DIR_def app_world_def js_def)

lemma blank_world_backlog:
  "backlog (js ''/home/u/.pm2/logs/app-out.log'') (written (js ''app'') blank_history app_world) =
     [js ''up'']"
  "backlog (js ''/home/u/.pm2/logs/app-error.log'') (written (js ''app'') blank_history app_world) =
     [js ''boom'']"
  by (simp_all add: backlog_def readFileSync_def blank_world_files)
     (simp_all add: nonblank_lines_def js_def NL_def trim_def is_ws_def)

lemma blank_session:
  "fst (app_session None blank_history) =
     \<lparr>processName = js ''app'', readyState = 1,
      sent = [Connected (js ''Connected to app logs'') (js ''app'') (js ''both''),
              LogMsg (js ''app'') (js ''out'') (js ''up''),
              LogMsg (js ''app'') (js ''error'') (js ''boom'')],
      close_call = None,
      children = [\<lparr>c_path = js ''/home/u/.pm2/logs/app-out.log'', c_type = js ''out'',
                    c_state = Starting, c_ident = 0, c_offset = 0,
                    c_kills = 0\<rparr>,
                  \<lparr>c_path = js ''/home/u/.pm2/logs/app-error.log'', c_type = js ''error'',
                    c_state = Starting, c_ident = 0, c_offset = 0,
                    c_kills = 0\<rparr>],
      tailProcess = Some 0, watchers = [], listening = True, registered = True\<rparr>"
  unfolding app_session_def opened [OF app_found(3) app_found(1) app_found(2)] blank_world_paths
  by (simp add: or_str_def existsSync_def blank_world_files blank_world_backlog tail_child_def)
     (simp add: js_def)

lemma app_session_world:
  "files (snd (app_session qtype hist)) = files (written (js ''app'') hist app_world)"
  unfolding app_session_def
  by (rule on_connection_found(2) [OF app_found(3) app_found(1) app_found(2)])

lemma empty_session:
  "fst (app_session (Some (js ''out'')) []) =
     \<lparr>processName = js ''app'', readyState = 1,
      sent = [Connected (js ''Connected to app logs'') (js ''app'') (js ''out'')],
      close_call = None, children = [], tailProcess = None, watchers = [],
      listening = True, registered = True\<rparr>"
  unfolding app_session_def opened [OF app_found(3) app_found(1) app_found(2)]
  by (simp add: or_str_def existsSync_def written_def app_world_def js_distinct)
     (simp add: js_def)

subsection \<open>Rotation\<close>

text \<open>
  The claim as stated fails: a client asks for the out log of \<open>app\<close> before the file
  exists. No child is started. The file is then created with the line \<open>late\<close>; the
  session has received the acknowledgment and nothing else.
\<close>

subsection \<open>Rotation and truncation\<close>

lemma unlinked_service_log [simp]: "unlinked (service_log m w) = unlinked w"
  by (simp add: service_log_def)

lemma step_files_ident:
  assumes "files (snd s) p = Some f"
  shows "\<exists>f'. files (snd (step e s)) p = Some f' \<and> f_ident f \<le> f_ident f'"
  using assms
  by (cases e; cases s;
      auto simp: fs_append_def fs_rotate_def fs_truncate_def fs_append_old_def tail_read_def
        tail_start_def on_tail_stderr_def on_close_def on_error_def Let_def
        split: option.splits sum.splits)

lemma step_unlinked:
  assumes "\<not> writes_old p n e" and "files (snd s) p = Some f" and "n < f_ident f"
  shows "unlinked (snd (step e s)) (p, n) = unlinked (snd s) (p, n)"
  using assms
  by (cases e; cases s;
      auto simp: fs_append_def fs_rotate_def fs_truncate_def fs_append_old_def tail_read_def
        tail_start_def on_tail_stderr_def on_close_def on_error_def Let_def
        split: option.splits sum.splits)

lemma stale_cannot_read: "stale i p s \<Longrightarrow> \<not> can_read i s"
  by (auto simp: stale_def can_read_def child_text_def split: option.splits)

lemma stale_read: "stale i p s \<Longrightarrow> tail_read i k s = s"
  by (cases s) (auto simp: stale_def tail_read_def child_text_def Let_def split: option.splits)

lemma stale_start: "stale i p s \<Longrightarrow> tail_start i s = s"
  by (cases s) (auto simp: stale_def tail_start_def Let_def)

lemma step_offset:
  assumes "i < length (children (fst s))"
    and "e \<noteq> TailStart i" and "e \<noteq> TailPoll i" and "\<forall>k. e \<noteq> TailChunk i k"
  shows "c_offset (children (fst (step e s)) ! i) = c_offset (children (fst s) ! i)"
  using assms
  by (cases e; cases s;
      simp add: tail_read_def tail_start_def on_tail_data_eq on_tail_stderr_def on_message_def
        ws_send_def on_close_def on_error_def Let_def cleanup_child nth_list_update
        split: option.splits sum.splits client_data.splits)

lemma stale_offset:
  assumes "stale i p s"
  shows "c_offset (children (fst (step e s)) ! i) = c_offset (children (fst s) ! i)"
proof -
  have i: "i < length (children (fst s))"
    using assms by (simp add: stale_def)
  consider "e = TailStart i" | "e = TailPoll i" | k where "e = TailChunk i k"
    | "e \<noteq> TailStart i" "e \<noteq> TailPoll i" "\<forall>k. e \<noteq> TailChunk i k"
    by blast
  then show ?thesis
  proof cases
    case 1
    then show ?thesis using stale_start [OF assms] by simp
  next
    case 2
    then show ?thesis using stale_read [OF assms, of None] by simp
  next
    case 3
    then show ?thesis using stale_read [OF assms, of "Some k"] by simp
  next
    case 4
    then show ?thesis using step_offset [OF i] by blast
  qed
qed

lemma stale_step:
  assumes "stale i p s" and "\<not> writes_old p (c_ident (children (fst s) ! i)) e"
  shows "stale i p (step e s)"
proof -
  obtain f where i: "i < length (children (fst s))" and p: "c_path (children (fst s) ! i) = p"
    and r: "c_state (children (fst s) ! i) = Reading"
    and f: "files (snd s) p = Some f" and lt: "c_ident (children (fst s) ! i) < f_ident f"
    and u: "case unlinked (snd s) (p, c_ident (children (fst s) ! i)) of
              None \<Rightarrow> True | Some txt \<Rightarrow> c_offset (children (fst s) ! i) = length txt"
    using assms(1) by (auto simp: stale_def split: option.splits)
  obtain f' where f': "files (snd (step e s)) p = Some f'" and le: "f_ident f \<le> f_ident f'"
    using step_files_ident [OF f] by blast
  have un: "unlinked (snd (step e s)) (p, c_ident (children (fst s) ! i)) =
            unlinked (snd s) (p, c_ident (children (fst s) ! i))"
    using step_unlinked [OF assms(2) f lt] .
  have st: "c_state (children (fst (step e s)) ! i) = Reading"
    "c_ident (children (fst (step e s)) ! i) = c_ident (children (fst s) ! i)"
    using step_child(3) [OF i r] by simp_all
  show ?thesis
    unfolding stale_def
    using i p lt le f' u
    by (simp add: step_frame step_child(1) st un stale_offset [OF assms(1)] split: option.splits)
qed

lemma run_append: "run (as @ bs) s = run bs (run as s)"
  by (induction as arbitrary: s) simp_all

lemma run_stale_sent:
  assumes "stale i p s" and "c_ident (children (fst s) ! i) = n"
    and "\<forall>e \<in> set evs. \<not> writes_old p n e"
  shows "\<exists>ms. sent (fst (run evs s)) = sent (fst s) @ ms \<and>
          (\<forall>m \<in> set ms. m = Pong \<or>
             (\<exists>j l. j < length (children (fst s)) \<and> j \<noteq> i \<and>
                    m = LogMsg (processName (fst s)) (c_type (children (fst s) ! j)) l))"
  using assms
proof (induction evs arbitrary: s)
  case Nil
  then show ?case by simp
next
  case (Cons e evs)
  obtain ms1 where 1: "sent (fst (step e s)) = sent (fst s) @ ms1"
    and 2: "\<forall>m \<in> set ms1. m = Pong \<or>
           (\<exists>j l. can_read j s \<and>
                  m = LogMsg (processName (fst s)) (c_type (children (fst s) ! j)) l)"
    using step_sent [of e s] by blast
  have i: "i < length (children (fst s))" and r: "c_state (children (fst s) ! i) = Reading"
    using Cons.prems(1) by (simp_all add: stale_def)
  have st: "stale i p (step e s)"
    using Cons.prems by (intro stale_step) simp_all
  have n: "c_ident (children (fst (step e s)) ! i) = n"
    using step_child(3) [OF i r, of e] Cons.prems(2) by simp
  obtain ms2 where 3: "sent (fst (run evs (step e s))) = sent (fst (step e s)) @ ms2"
    and 4: "\<forall>m \<in> set ms2. m = Pong \<or>
           (\<exists>j l. j < length (children (fst (step e s))) \<and> j \<noteq> i \<and>
                  m = LogMsg (processName (fst (step e s)))
                        (c_type (children (fst (step e s)) ! j)) l)"
    using Cons.IH [OF st n] Cons.prems(3) by auto
  have 5: "\<forall>m \<in> set ms1. m = Pong \<or>
           (\<exists>j l. j < length (children (fst s)) \<and> j \<noteq> i \<and>
                  m = LogMsg (processName (fst s)) (c_type (children (fst s) ! j)) l)"
  proof
    fix m assume "m \<in> set ms1"
    then consider "m = Pong"
      | j l where "can_read j s" "m = LogMsg (processName (fst s)) (c_type (children (fst s) ! j)) l"
      using 2 by blast
    then show "m = Pong \<or>
           (\<exists>j l. j < length (children (fst s)) \<and> j \<noteq> i \<and>
                  m = LogMsg (processName (fst s)) (c_type (children (fst s) ! j)) l)"
    proof cases
      case 1
      then show ?thesis by simp
    next
      case 2
      have "j \<noteq> i"
        using 2(1) stale_cannot_read [OF Cons.prems(1)] by auto
      moreover have "j < length (children (fst s))"
        using 2(1) by (simp add: can_read_def)
      ultimately show ?thesis
        using 2(2) by blast
    qed
  qed
  have 6: "\<forall>m \<in> set ms2. m = Pong \<or>
           (\<exists>j l. j < length (children (fst s)) \<and> j \<noteq> i \<and>
                  m = LogMsg (processName (fst s)) (c_type (children (fst s) ! j)) l)"
  proof
    fix m assume "m \<in> set ms2"
    then consider "m = Pong"
      | j l where "j < length (children (fst s))" "j \<noteq> i"
          "m = LogMsg (processName (fst s)) (c_type (children (fst (step e s)) ! j)) l"
      using 4 by (auto simp: step_frame)
    then show "m = Pong \<or>
           (\<exists>j l. j < length (children (fst s)) \<and> j \<noteq> i \<and>
                  m = LogMsg (processName (fst s)) (c_type (children (fst s) ! j)) l)"
    proof cases
      case 1
      then show ?thesis by simp
    next
      case 2
      then show ?thesis
        using step_child(2) [of j s e] by auto
    qed
  qed
  have "sent (fst (run (e # evs) s)) = sent (fst s) @ (ms1 @ ms2)"
    using 1 3 by simp
  moreover have "\<forall>m \<in> set (ms1 @ ms2). m = Pong \<or>
           (\<exists>j l. j < length (children (fst s)) \<and> j \<noteq> i \<and>
                  m = LogMsg (processName (fst s)) (c_type (children (fst s) ! j)) l)"
    using 5 6 by auto
  ultimately show ?case by blast
qed

lemma following_rotate:
  assumes "following i p s"
  shows "stale i p (step (FsRotate p) s)"
  using assms
  by (cases s) (auto simp: following_def stale_def fs_rotate_def split: option.splits)

subsection \<open>Appending and reading\<close>

lemma nonblank_lines_Nil: "nonblank_lines [] = []"
  by (simp add: nonblank_lines_def trim_empty)

lemma poll_after_append:
  assumes "following i p s"
  shows "following i p (run [FsAppend p t, TailPoll i] s)"
    and "sent (fst (run [FsAppend p t, TailPoll i] s)) =
           sent (fst s) @
           map (LogMsg (processName (fst s)) (c_type (children (fst s) ! i))) (nonblank_lines t)"
    and "files (snd (run [FsAppend p t, TailPoll i] s)) p =
           map_option (\<lambda>f. f\<lparr>f_content := f_content f @ t\<rparr>) (files (snd s) p)"
proof -
  obtain c w where s: "s = (c, w)"
    by (cases s)
  obtain f where f: "files w p = Some f" and r: "readyState c = 1" and i: "i < length (children c)"
    and ch: "c_path (children c ! i) = p" "c_state (children c ! i) = Reading"
      "c_kills (children c ! i) = 0" "c_ident (children c ! i) = f_ident f"
      "c_offset (children c ! i) = length (f_content f)"
    using assms unfolding s by (auto simp: following_def split: option.splits)
  have fw: "files (fs_append p t' w) p = Some (f\<lparr>f_content := f_content f @ t'\<rparr>)" for t'
    by (simp add: fs_append_def f)
  have ct: "child_text (children c ! i) (fs_append p t' w) = Some (f_content f @ t')" for t'
    by (simp add: child_text_def ch fw)
  have run: "run [FsAppend p t, TailPoll i] s = tail_read i None (c, fs_append p t w)"
    by (simp add: s)
  have tp: "tail_read i None (c, fs_append p t w) =
      (if t = [] then (c, fs_append p t w)
       else (c\<lparr>children := (children c)
                   [i := (children c ! i)\<lparr>c_offset := length (f_content f) + length t\<rparr>],
               sent := sent c @
                   map (LogMsg (processName c) (c_type (children c ! i))) (nonblank_lines t)\<rparr>,
             fs_append p t w))"
    by (simp add: tail_read_def ct i ch r on_tail_data_eq Let_def)
  show "following i p (run [FsAppend p t, TailPoll i] s)"
    unfolding run tp by (simp add: following_def fw i ch r)
  show "sent (fst (run [FsAppend p t, TailPoll i] s)) =
           sent (fst s) @
           map (LogMsg (processName (fst s)) (c_type (children (fst s) ! i))) (nonblank_lines t)"
    unfolding run tp by (simp add: s nonblank_lines_Nil)
  show "files (snd (run [FsAppend p t, TailPoll i] s)) p =
           map_option (\<lambda>f. f\<lparr>f_content := f_content f @ t\<rparr>) (files (snd s) p)"
    unfolding run tp by (simp add: fw s f)
qed

lemma poll_after_truncate:
  assumes "following i p s"
  shows "following i p (run [FsTruncate p, TailPoll i] s)"
    and "sent (fst (run [FsTruncate p, TailPoll i] s)) = sent (fst s)"
proof -
  obtain c w where s: "s = (c, w)"
    by (cases s)
  obtain f where f: "files w p = Some f" and r: "readyState c = 1" and i: "i < length (children c)"
    and ch: "c_path (children c ! i) = p" "c_state (children c ! i) = Reading"
      "c_kills (children c ! i) = 0" "c_ident (children c ! i) = f_ident f"
      "c_offset (children c ! i) = length (f_content f)"
    using assms unfolding s by (auto simp: following_def split: option.splits)
  have fw: "files (fs_truncate p w) p = Some (f\<lparr>f_content := []\<rparr>)"
    by (simp add: fs_truncate_def f)
  have ct: "child_text (children c ! i) (fs_truncate p w) = Some []"
    by (simp add: child_text_def ch fw)
  have run: "run [FsTruncate p, TailPoll i] s = tail_read i None (c, fs_truncate p w)"
    by (simp add: s)
  show "following i p (run [FsTruncate p, TailPoll i] s)"
    unfolding run
    by (simp add: tail_read_def ct i ch r on_tail_stderr_def following_def fw Let_def)
  show "sent (fst (run [FsTruncate p, TailPoll i] s)) = sent (fst s)"
    unfolding run
    by (simp add: tail_read_def ct i ch r on_tail_stderr_def s Let_def)
qed

lemma resume_after_truncate:
  assumes "following i p s"
  shows "sent (fst (run [FsTruncate p, TailPoll i, FsAppend p t, TailPoll i] s)) =
           sent (fst s) @
           map (LogMsg (processName (fst s)) (c_type (children (fst s) ! i))) (nonblank_lines t)"
proof -
  let ?s1 = "run [FsTruncate p, TailPoll i] s"
  have i: "i < length (children (fst s))"
    using assms by (simp add: following_def)
  have split: "run [FsTruncate p, TailPoll i, FsAppend p t, TailPoll i] s =
               run [FsAppend p t, TailPoll i] ?s1"
    by simp
  have fr: "processName (fst ?s1) = processName (fst s)"
    "c_type (children (fst ?s1) ! i) = c_type (children (fst s) ! i)"
    using run_frame(1) [of "[FsTruncate p, TailPoll i]" s]
      run_child(2) [OF i, of "[FsTruncate p, TailPoll i]"]
    by simp_all
  show ?thesis
    unfolding split poll_after_append(2) [OF poll_after_truncate(1) [OF assms]] fr
      poll_after_truncate(2) [OF assms] ..
qed

lemma old_file_followed:
  assumes "following i p s"
  shows "sent (fst (run [FsRotate p, FsAppendOld p (c_ident (children (fst s) ! i)) t, TailPoll i] s)) =
           sent (fst s) @
           map (LogMsg (processName (fst s)) (c_type (children (fst s) ! i))) (nonblank_lines t)"
proof -
  obtain c w where s: "s = (c, w)"
    by (cases s)
  obtain f where f: "files w p = Some f" and r: "readyState c = 1" and i: "i < length (children c)"
    and ch: "c_path (children c ! i) = p" "c_state (children c ! i) = Reading"
      "c_kills (children c ! i) = 0" "c_ident (children c ! i) = f_ident f"
      "c_offset (children c ! i) = length (f_content f)"
    using assms unfolding s by (auto simp: following_def split: option.splits)
  let ?w = "fs_append_old p (f_ident f) t (fs_rotate p w)"
  have ct: "child_text (children c ! i) ?w = Some (f_content f @ t)"
    by (simp add: child_text_def ch fs_append_old_def fs_rotate_def f)
  have run: "run [FsRotate p, FsAppendOld p (c_ident (children (fst s) ! i)) t, TailPoll i] s =
             tail_read i None (c, ?w)"
    by (simp add: s ch)
  show ?thesis
    unfolding run
    by (simp add: tail_read_def ct i ch r on_tail_data_eq s nonblank_lines_Nil Let_def)
qed

subsection \<open>A session on the out log of \<open>app\<close>\<close>

lemma boot_world:
  "files (written (js ''app'') [(''out'', js ''boot'')] app_world)
     (js ''/home/u/.pm2/logs/app-out.log'') =
     Some \<lparr>f_ident = 0, f_content = js ''boot'' @ [NL], f_readable = True\<rparr>"
  "log_path (js ''app'') ''out'' (written (js ''app'') [(''out'', js ''boot'')] app_world) =
     js ''/home/u/.pm2/logs/app-out.log''"
  by (simp_all add: files_written log_path_written)
     (simp_all add: log_path_def PM2_LOG_DIR_def app_world_def js_def text_of_lines_def)

lemma boot_backlog:
  "backlog (js ''/home/u/.pm2/logs/app-out.log'')
     (written (js ''app'') [(''out'', js ''boot'')] app_world) = [js ''boot'']"
  by (simp add: backlog_def readFileSync_def boot_world)
     (simp add: nonblank_lines_def js_def NL_def trim_def is_ws_def)

lemma boot_session:
  "fst (app_session (Some (js ''out'')) [(''out'', js ''boot'')]) =
     \<lparr>processName = js ''app'', readyState = 1,
      sent = [Connected (js ''Connected to app logs'') (js ''app'') (js ''out''),
              LogMsg (js ''app'') (js ''out'') (js ''boot'')],
      close_call = None,
      children = [\<lparr>c_path = js ''/home/u/.pm2/logs/app-out.log'', c_type = js ''out'',
                    c_state = Starting, c_ident = 0, c_offset = 0, c_kills = 0\<rparr>],
      tailProcess = Some 0, watchers = [], listening = True, registered = True\<rparr>"
  unfolding app_session_def opened [OF app_found(3) app_found(1) app_found(2)] boot_world
  by (simp add: or_str_def existsSync_def boot_world boot_backlog tail_child_def js_distinct)
     (simp add: js_def)

lemma boot_files:
  "files (snd (app_session (Some (js ''out'')) [(''out'', js ''boot'')]))
     (js ''/home/u/.pm2/logs/app-out.log'') =
     Some \<lparr>f_ident = 0, f_content = js ''boot'' @ [NL], f_readable = True\<rparr>"
  by (simp add: app_session_world boot_world)

lemma boot_tail_start:
  "tail_start 0 (app_session (Some (js ''out'')) [(''out'', js ''boot'')]) =
     (\<lparr>processName = js ''app'', readyState = 1,
       sent = [Connected (js ''Connected to app logs'') (js ''app'') (js ''out''),
               LogMsg (js ''app'') (js ''out'') (js ''boot'')],
       close_call = None,
       children = [\<lparr>c_path = js ''/home/u/.pm2/logs/app-out.log'', c_type = js ''out'',
                     c_state = Reading, c_ident = 0, c_offset = 5, c_kills = 0\<rparr>],
       tailProcess = Some 0, watchers = [], listening = True, registered = True\<rparr>,
      snd (app_session (Some (js ''out'')) [(''out'', js ''boot'')]))"
proof -
  let ?s = "app_session (Some (js ''out'')) [(''out'', js ''boot'')]"
  have "tail_start 0 (fst ?s, snd ?s) =
     (\<lparr>processName = js ''app'', readyState = 1,
       sent = [Connected (js ''Connected to app logs'') (js ''app'') (js ''out''),
               LogMsg (js ''app'') (js ''out'') (js ''boot'')],
       close_call = None,
       children = [\<lparr>c_path = js ''/home/u/.pm2/logs/app-out.log'', c_type = js ''out'',
                     c_state = Reading, c_ident = 0, c_offset = 5, c_kills = 0\<rparr>],
       tailProcess = Some 0, watchers = [], listening = True, registered = True\<rparr>, snd ?s)"
    unfolding tail_start_def
    by (simp add: boot_session boot_files readFileSync_def) (simp add: js_def)
  then show ?thesis by simp
qed

lemma boot_following:
  "following 0 (js ''/home/u/.pm2/logs/app-out.log'')
     (run [TailStart 0] (app_session (Some (js ''out'')) [(''out'', js ''boot'')]))"
  by (simp add: boot_tail_start following_def boot_files) (simp add: js_def)

subsection \<open>Data events\<close>




lemma demo_chunks:
  "nonblank_lines (js ''ab'') = [js ''ab'']" "nonblank_lines (js ''c'' @ [NL]) = [js ''c'']"
  "nonblank_lines (text_of_lines [js ''x'', [], js ''y'']) = [js ''x'', js ''y'']"
  "nonblank_lines (js ''again'' @ [NL]) = [js ''again'']"
  by (simp_all add: nonblank_lines_def text_of_lines_def js_def NL_def trim_def is_ws_def)

section \<open>Process Directory and Process Control: the claims\<close>

text \<open>
  Claim C9, on its failing input. When the supervisor query behind
  \<^verbatim>\<open>getPM2Processes\<close> fails (the command fails or its output does not parse), the
  \<^verbatim>\<open>catch\<close> branch passes the failure to \<^verbatim>\<open>log\<close> and then returns the empty list. It
  returns only if \<^verbatim>\<open>log\<close> does: when the service cannot write its own log file, what
  \<^verbatim>\<open>fs.appendFileSync\<close> throws inside \<^verbatim>\<open>log\<close> leaves \<^verbatim>\<open>getPM2Processes\<close> through its
  \<^verbatim>\<open>catch\<close> branch.
\<close>

theorem getPM2Processes_failure:
  "jlist w = Inl msg \<Longrightarrow>
   getPM2Processes err w =
     ((case err of None \<Rightarrow> Inr [] | Some e \<Rightarrow> Inl e),
      w\<lparr>execd := execd w @ [js ''pm2 jlist''],
        logged := logged w @ [js ''Error getting PM2 processes: '' @ msg]\<rparr>)"
  by (simp add: getPM2Processes_def exec_jlist_def log_call_def service_log_def
      split: option.splits)

theorem getPM2Processes_failure_witness:
  "jlist down_world = Inl (js ''Command failed: pm2 jlist'') \<and>
   fst (getPM2Processes (Some (js ''ENOSPC: no space left on device, write'')) down_world) =
     Inl (js ''ENOSPC: no space left on device, write'') \<and>
   fst (getPM2Processes None down_world) = Inr [] \<and>
   logged (snd (getPM2Processes None down_world)) =
     [js ''Error getting PM2 processes: Command failed: pm2 jlist'']"
proof -
  have j: "jlist down_world = Inl (js ''Command failed: pm2 jlist'')"
    by (simp add: down_world_def)
  have "logged down_world = []"
    by (simp add: down_world_def app_world_def)
  then show ?thesis
    using j getPM2Processes_failure [OF j, of "Some (js ''ENOSPC: no space left on device, write'')"]
      getPM2Processes_failure [OF j, of None]
    by (simp add: js_def)
qed

text \<open>
  Claim C8. For a non-empty name for which \<^verbatim>\<open>getPM2Process\<close> finds no process,
  \<^verbatim>\<open>POST /pm2/[name]/restart\<close> answers 404 with status \<open>error\<close> and the message
  \<open>Process <name> not found\<close>, and the only command executed is the existence check
  \<^verbatim>\<open>pm2 jlist\<close>: \<^verbatim>\<open>pm2 restart\<close> is never run.
\<close>

theorem restart_unknown:
  assumes "serviceName \<noteq> []" and "fst (getPM2Process serviceName w) = None"
  shows "fst (post_restart serviceName w) =
           (404, JObj [(''status'', JStr (js ''error'')),
                       (''message'', JStr (js ''Process '' @ serviceName @ js '' not found''))]) \<and>
         execd (snd (post_restart serviceName w)) = execd w @ [js ''pm2 jlist'']"
proof -
  obtain w1 where g: "getPM2Process serviceName w = (None, w1)"
    using assms(2) by (cases "getPM2Process serviceName w") simp
  have "execd w1 = execd w @ [js ''pm2 jlist'']"
    using getPM2Process_execd [of serviceName w] g by simp
  then show ?thesis
    using assms(1) g by (simp add: post_restart_def restartPM2Process_def)
qed

theorem restart_unknown_witness:
  "js ''ghost'' \<noteq> [] \<and> fst (getPM2Process (js ''ghost'') app_world) = None \<and>
   fst (post_restart (js ''ghost'') app_world) =
     (404, JObj [(''status'', JStr (js ''error'')),
                 (''message'', JStr (js ''Process ghost not found''))]) \<and>
   execd (snd (post_restart (js ''ghost'') app_world)) = [js ''pm2 jlist'']"
proof -
  have a: "js ''ghost'' \<noteq> []" by (simp add: js_def)
  have b: "fst (getPM2Process (js ''ghost'') app_world) = None"
    by (simp add: getPM2Process_def exec_jlist_def app_world_def app_proc_def js_def)
  show ?thesis
    using a b restart_unknown [OF a b] by (simp add: app_world_def js_def)
qed

section \<open>The combined log: the claims\<close>

text \<open>
  Claim C6, as amended. When the out log of an existing process holds the lines \<open>outs\<close>
  and its error log the lines \<open>errs\<close> (each line free of newlines and not blank, each
  ended by a newline), \<^verbatim>\<open>GET /pm2/[name]/logs\<close> answers 200 with \<open>totalLines\<close> the sum of
  the two lengths, \<open>outLogLines\<close> and \<open>errorLogLines\<close> the lengths, and \<open>logs\<close> the first
  1000 entries of the reversed concatenation of the out lines and the error lines. Its
  first entry is therefore the last line of the error log (of the out log when the
  error log holds no line), whichever file was written last.
\<close>

theorem get_logs_lines:
  assumes "name \<noteq> []" and "jlist w = Inr ps" and "find (\<lambda>p. rp_name p = name) ps = Some pr"
    and "files w (log_path name ''out'' w) = Some fo" and "f_readable fo"
    and "f_content fo = text_of_lines outs"
    and "files w (log_path name ''error'' w) = Some fe" and "f_readable fe"
    and "f_content fe = text_of_lines errs"
    and "\<forall>l \<in> set outs. NL \<notin> set l \<and> trim l \<noteq> []"
    and "\<forall>l \<in> set errs. NL \<notin> set l \<and> trim l \<noteq> []"
  shows "fst (get_logs name w) =
           (200, JObj [(''status'', JStr (js ''success'')),
                       (''service'', JStr name),
                       (''logs'', JArr (take 1000 (rev (map (log_entry ''out'') outs @
                                                        map (log_entry ''error'') errs)))),
                       (''totalLines'', JNum (length outs + length errs)),
                       (''outLogLines'', JNum (length outs)),
                       (''errorLogLines'', JNum (length errs))]) \<and>
         first_log (snd (fst (get_logs name w))) =
           (if errs \<noteq> [] then Some (log_entry ''error'' (last errs))
            else if outs \<noteq> [] then Some (log_entry ''out'' (last outs)) else None)"
  using get_logs_of_lines [OF assms] first_log_body [of name outs errs]
  by (simp add: logs_body_def)

theorem get_logs_lines_witness:
  "get_field ''totalLines''
     (snd (fst (get_logs (js ''app'') (written (js ''app'') late_out_history app_world)))) =
     Some (JNum (10 + 5)) \<and>
   first_log (snd (fst (get_logs (js ''app'') (written (js ''app'') late_out_history app_world)))) =
     Some (log_entry ''error'' (js ''e5''))"
proof -
  have o: "files (written (js ''app'') late_out_history app_world)
             (log_path (js ''app'') ''out'' (written (js ''app'') late_out_history app_world)) =
           Some \<lparr>f_ident = 0, f_content = text_of_lines [js ''o1'', js ''o2'', js ''o3'',
             js ''o4'', js ''o5'', js ''o6'', js ''o7'', js ''o8'', js ''o9'', js ''o10''],
             f_readable = True\<rparr>"
    by (simp add: log_path_written late_out_files)
  have e: "files (written (js ''app'') late_out_history app_world)
             (log_path (js ''app'') ''error'' (written (js ''app'') late_out_history app_world)) =
           Some \<lparr>f_ident = 0, f_content = text_of_lines [js ''e1'', js ''e2'', js ''e3'',
             js ''e4'', js ''e5''], f_readable = True\<rparr>"
    by (simp add: log_path_written late_out_files)
  note r = get_logs_lines [OF app_found(3) app_found(1) app_found(2) o _ _ e _ _
      lines_ok_out lines_ok_err, simplified]
  have "get_field ''totalLines''
          (snd (fst (get_logs (js ''app'') (written (js ''app'') late_out_history app_world)))) =
        Some (JNum (10 + 5))"
    by (simp add: conjunct1 [OF r])
  moreover have "first_log
          (snd (fst (get_logs (js ''app'') (written (js ''app'') late_out_history app_world)))) =
        Some (log_entry ''error'' (js ''e5''))"
    using conjunct2 [OF r] by simp
  ultimately show ?thesis
    by (rule conjI)
qed

text \<open>
  The claim as stated fails: \<open>app\<close> writes five lines to standard error and then ten to
  standard output. The counts are 15, 10 and 5, the line written last is \<open>o10\<close> on
  standard output, and the first entry of \<open>logs\<close> is the error line \<open>e5\<close>.
\<close>

theorem logs_first_entry_counterexample:
  "get_field ''totalLines''
     (snd (fst (get_logs (js ''app'') (written (js ''app'') late_out_history app_world)))) =
     Some (JNum 15) \<and>
   get_field ''outLogLines''
     (snd (fst (get_logs (js ''app'') (written (js ''app'') late_out_history app_world)))) =
     Some (JNum 10) \<and>
   get_field ''errorLogLines''
     (snd (fst (get_logs (js ''app'') (written (js ''app'') late_out_history app_world)))) =
     Some (JNum 5) \<and>
   last late_out_history = (''out'', js ''o10'') \<and>
   first_log (snd (fst (get_logs (js ''app'') (written (js ''app'') late_out_history app_world)))) =
     Some (log_entry ''error'' (js ''e5'')) \<and>
   first_log (snd (fst (get_logs (js ''app'') (written (js ''app'') late_out_history app_world)))) \<noteq>
     Some (log_entry ''out'' (js ''o10''))"
proof -
  have "last late_out_history = (''out'', js ''o10'')"
    by (simp add: late_out_history_def)
  moreover have "log_entry ''error'' (js ''e5'') \<noteq> log_entry ''out'' (js ''o10'')"
    by (simp add: log_entry_def js_def)
  ultimately show ?thesis
    by (simp add: late_out_response first_log_body) (simp add: logs_body_def)
qed

text \<open>
  Claim C7, as amended. Every entry of the \<open>logs\<close> array of \<^verbatim>\<open>GET /pm2/[name]/logs\<close> is an
  object with exactly three keys: \<open>type\<close> (\<open>out\<close> or \<open>error\<close>, the stream the line was read
  from), \<open>message\<close> (a line of that stream's file) and \<open>timestamp\<close>, which is null.
\<close>

theorem logs_entry_shape:
  assumes "get_field ''logs'' (snd (fst (get_logs name w))) = Some (JArr ls)" and "e \<in> set ls"
  shows "keys e = [''type'', ''message'', ''timestamp''] \<and>
         get_field ''timestamp'' e = Some JNull \<and>
         ((\<exists>line. line \<in> set (visible_lines (log_path name ''out'' w) w) \<and>
             e = JObj [(''type'', JStr (js ''out'')), (''message'', JStr line),
                       (''timestamp'', JNull)]) \<or>
          (\<exists>line. line \<in> set (visible_lines (log_path name ''error'' w) w) \<and>
             e = JObj [(''type'', JStr (js ''error'')), (''message'', JStr line),
                       (''timestamp'', JNull)]))"
proof -
  obtain p where "name \<noteq> []" and "fst (getPM2Process name w) = Some p"
    using get_logs_has_logs [OF assms(1)] by auto
  then have "fst (get_logs name w) =
      (200, logs_body name (visible_lines (log_path name ''out'' w) w)
                           (visible_lines (log_path name ''error'' w) w))"
    by (rule get_logs_found)
  then have "ls = take 1000 (rev (map (log_entry ''out'') (visible_lines (log_path name ''out'' w) w) @
                                  map (log_entry ''error'') (visible_lines (log_path name ''error'' w) w)))"
    using assms(1) by (simp add: logs_body_def)
  then have "e \<in> set (rev (map (log_entry ''out'') (visible_lines (log_path name ''out'' w) w) @
                           map (log_entry ''error'') (visible_lines (log_path name ''error'' w) w)))"
    using assms(2) in_set_takeD by metis
  then have "e \<in> log_entry ''out'' ` set (visible_lines (log_path name ''out'' w) w) \<or>
             e \<in> log_entry ''error'' ` set (visible_lines (log_path name ''error'' w) w)"
    by auto
  then show ?thesis
    by (auto simp: log_entry_def)
qed

theorem logs_entry_shape_witness:
  "get_field ''logs'' (snd (fst (get_logs (js ''app'') (written (js ''app'') blank_history app_world)))) =
     Some (JArr [log_entry ''error'' (js ''boom''), log_entry ''out'' (js ''up'')]) \<and>
   keys (log_entry ''out'' (js ''up'')) = [''type'', ''message'', ''timestamp''] \<and>
   get_field ''timestamp'' (log_entry ''out'' (js ''up'')) = Some JNull"
proof -
  have h: "get_field ''logs''
             (snd (fst (get_logs (js ''app'') (written (js ''app'') blank_history app_world)))) =
           Some (JArr [log_entry ''error'' (js ''boom''), log_entry ''out'' (js ''up'')])"
    by (simp add: blank_response logs_body_def)
  have m: "log_entry ''out'' (js ''up'') \<in>
             set [log_entry ''error'' (js ''boom''), log_entry ''out'' (js ''up'')]"
    by simp
  show ?thesis
    using h logs_entry_shape [OF h m] by simp
qed

text \<open>
  The claim as stated fails: it names the fields \<open>channel\<close> and \<open>text\<close>. The first entry
  of the answer for \<open>app\<close> has the keys \<open>type\<close>, \<open>message\<close> and \<open>timestamp\<close>; it has no field
  \<open>channel\<close> and no field \<open>text\<close>.
\<close>

theorem logs_entry_keys_counterexample:
  "first_log (snd (fst (get_logs (js ''app'') (written (js ''app'') blank_history app_world)))) =
     Some (JObj [(''type'', JStr (js ''error'')), (''message'', JStr (js ''boom'')),
                 (''timestamp'', JNull)]) \<and>
   get_field ''channel''
     (JObj [(''type'', JStr (js ''error'')), (''message'', JStr (js ''boom'')),
            (''timestamp'', JNull)]) = None \<and>
   get_field ''text''
     (JObj [(''type'', JStr (js ''error'')), (''message'', JStr (js ''boom'')),
            (''timestamp'', JNull)]) = None"
  by (simp add: blank_response first_log_body log_entry_def)

text \<open>
  Claim C10. In every answer 200 of \<^verbatim>\<open>GET /pm2/[name]/logs\<close>, \<open>outLogLines\<close> and
  \<open>errorLogLines\<close> count the lines of the two files that hold a character other than
  white space, \<open>totalLines\<close> is their sum, and \<open>logs\<close> holds the entries of exactly those
  lines, cut to \<open>min totalLines 1000\<close> entries.
\<close>

theorem get_logs_counts:
  assumes "fst (get_logs name w) = (200, body)"
  shows "get_field ''outLogLines'' body =
           Some (JNum (length (visible_lines (log_path name ''out'' w) w))) \<and>
         get_field ''errorLogLines'' body =
           Some (JNum (length (visible_lines (log_path name ''error'' w) w))) \<and>
         get_field ''totalLines'' body =
           Some (JNum (length (visible_lines (log_path name ''out'' w) w) +
                       length (visible_lines (log_path name ''error'' w) w))) \<and>
         (\<exists>ls. get_field ''logs'' body = Some (JArr ls) \<and>
               ls = take 1000 (rev (map (log_entry ''out'') (visible_lines (log_path name ''out'' w) w) @
                                    map (log_entry ''error'') (visible_lines (log_path name ''error'' w) w))) \<and>
               length ls = min (length (visible_lines (log_path name ''out'' w) w) +
                                length (visible_lines (log_path name ''error'' w) w)) 1000)"
proof -
  obtain p where "name \<noteq> []" and "fst (getPM2Process name w) = Some p"
    using get_logs_200 [OF assms] by auto
  then have "body = logs_body name (visible_lines (log_path name ''out'' w) w)
                                   (visible_lines (log_path name ''error'' w) w)"
    using get_logs_found [of name w p] assms by simp
  then show ?thesis
    by (simp add: logs_body_def)
qed

theorem get_logs_counts_witness:
  "fst (get_logs (js ''app'') (written (js ''app'') blank_history app_world)) =
     (200, logs_body (js ''app'') [js ''up''] [js ''boom'']) \<and>
   get_field ''totalLines'' (logs_body (js ''app'') [js ''up''] [js ''boom'']) = Some (JNum 2) \<and>
   get_field ''outLogLines'' (logs_body (js ''app'') [js ''up''] [js ''boom'']) = Some (JNum 1) \<and>
   get_field ''logs'' (logs_body (js ''app'') [js ''up''] [js ''boom'']) =
     Some (JArr [log_entry ''error'' (js ''boom''), log_entry ''out'' (js ''up'')])"
  using get_logs_counts [OF blank_response] blank_response
  by (simp add: log_path_written blank_files)

section \<open>Log streaming: the claims\<close>

text \<open>
  Claim C5. For a non-empty name of a process the supervisor knows, the connection
  handler on a fresh open socket sends exactly one \<open>Connected\<close> message, and sends it
  first: whatever happens afterwards, the messages sent are that acknowledgment
  followed only by log messages (the replayed lines of the files that exist, then
  streamed lines) and pongs.
\<close>

theorem connected_first:
  assumes "name \<noteq> []" and "jlist w = Inr ps" and "find (\<lambda>p. rp_name p = name) ps = Some pr"
  shows "\<exists>rest. sent (fst (run evs (on_connection name qtype (fresh_ws, w)))) =
                  Connected (js ''Connected to '' @ name @ js '' logs'') name
                    (or_str qtype (js ''both'')) # rest \<and>
                (\<forall>m \<in> set rest. m = Pong \<or> is_log m)"
proof -
  let ?s = "on_connection name qtype (fresh_ws, w)"
  define bl where "bl =
      (if (or_str qtype (js ''both'') = js ''both'' \<or> or_str qtype (js ''both'') = js ''out'') \<and>
          existsSync (log_path name ''out'' w) w
       then map (LogMsg name (js ''out'')) (backlog (log_path name ''out'' w) w) else []) @
      (if (or_str qtype (js ''both'') = js ''both'' \<or> or_str qtype (js ''both'') = js ''error'') \<and>
          existsSync (log_path name ''error'' w) w
       then map (LogMsg name (js ''error'')) (backlog (log_path name ''error'' w) w) else [])"
  have 1: "sent (fst ?s) =
      Connected (js ''Connected to '' @ name @ js '' logs'') name (or_str qtype (js ''both'')) # bl"
    unfolding opened [OF assms] bl_def by simp
  have 2: "\<forall>m \<in> set bl. is_log m"
    unfolding bl_def by auto
  obtain ms where 3: "sent (fst (run evs ?s)) = sent (fst ?s) @ ms"
    and 4: "\<forall>m \<in> set ms. m = Pong \<or>
           (\<exists>i l. i < length (children (fst ?s)) \<and>
                  m = LogMsg (processName (fst ?s)) (c_type (children (fst ?s) ! i)) l)"
    using run_sent [of evs ?s] by blast
  have "\<forall>m \<in> set (bl @ ms). m = Pong \<or> is_log m"
    using 2 4 by auto
  moreover have "sent (fst (run evs ?s)) =
      Connected (js ''Connected to '' @ name @ js '' logs'') name (or_str qtype (js ''both'')) #
      (bl @ ms)"
    using 1 3 by simp
  ultimately show ?thesis by blast
qed

theorem connected_first_witness:
  "sent (fst (run [ping] (app_session None blank_history))) =
     [Connected (js ''Connected to app logs'') (js ''app'') (js ''both''),
      LogMsg (js ''app'') (js ''out'') (js ''up''),
      LogMsg (js ''app'') (js ''error'') (js ''boom''),
      Pong]"
proof -
  have "fst (run [ping] (app_session None blank_history)) =
          on_message (Json (JObj [(''type'', JStr (js ''ping''))])) (fst (app_session None blank_history))"
    by (simp add: ping_def blank_session)
  then have e: "sent (fst (run [ping] (app_session None blank_history))) =
     [Connected (js ''Connected to app logs'') (js ''app'') (js ''both''),
      LogMsg (js ''app'') (js ''out'') (js ''up''),
      LogMsg (js ''app'') (js ''error'') (js ''boom''),
      Pong]"
    by (simp add: blank_session on_message_def ws_send_def)
  show ?thesis
    using connected_first [OF app_found(3) app_found(1) [of blank_history] app_found(2),
        where evs = "[ping]" and qtype = None] e
    by simp
qed




text \<open>
  Claim C2, on its failing input. A client asks for both logs of \<open>app\<close>, both files
  exist, and two children are started. \<open>cleanup\<close> reaches only the child held in
  \<open>tailProcess\<close>. Whatever happens afterwards, the child on the error log is never
  killed; and one \<^verbatim>\<open>close\<close> event calls \<open>kill\<close> twice on the child on the out log, once
  per attached listener.
\<close>

theorem error_tail_never_killed:
  "c_type (children (fst (run evs (app_session None blank_history))) ! 1) = js ''error'' \<and>
   c_kills (children (fst (run evs (app_session None blank_history))) ! 1) = 0 \<and>
   length (children (fst (run evs (app_session None blank_history)))) = 2 \<and>
   map c_kills (children (fst (run [WsClose] (app_session None blank_history)))) = [2, 0]"
proof -
  let ?s = "app_session None blank_history"
  have l: "1 < length (children (fst ?s))" and t: "tailProcess (fst ?s) \<noteq> Some 1"
    by (simp_all add: blank_session)
  have "c_type (children (fst (run evs ?s)) ! 1) = js ''error''"
    using run_child(2) [OF l, of evs] by (simp add: blank_session)
  moreover have "c_kills (children (fst (run evs ?s)) ! 1) = 0"
    using run_child(3) [OF l t, of evs] by (simp add: blank_session)
  moreover have "length (children (fst (run evs ?s))) = 2"
    by (simp add: run_frame blank_session)
  moreover have "map c_kills (children (fst (run [WsClose] ?s))) = [2, 0]"
    by (simp add: on_close_def blank_session cleanup_def kill_def Let_def)
  ultimately show ?thesis by blast
qed

text \<open>
  Claim C3, as amended. The service has no rotation handling of its own: it starts one
  child per file when the session opens and forwards what the child prints, so what a
  rotation does to a session is what \<^verbatim>\<open>tail -f\<close> does. For a child \<open>i\<close> that follows the file
  at \<open>p\<close>:
  \<^item> when the file shrinks (it is truncated in place), the child notices at its next
    read and starts again at offset \<open>0\<close>: it follows the file again, and text written
    afterwards is streamed on the same connection;
  \<^item> when the path is replaced by another file, nothing is closed or reopened: the
    number of children, the child's path and the identity of the file it holds stay
    as they were, whatever happens. The child goes on reading the file it opened
    (text appended to that file still arrives), and as long as nothing is written to
    that file every later message is a pong or a line read by another child. Lines
    written to the replacement reach the client only through a new connection.
\<close>

theorem rotation_and_truncation:
  assumes "following i p s"
  shows "following i p (run [FsTruncate p, TailPoll i] s) \<and>
         sent (fst (run [FsTruncate p, TailPoll i, FsAppend p t, TailPoll i] s)) =
           sent (fst s) @
           map (LogMsg (processName (fst s)) (c_type (children (fst s) ! i))) (nonblank_lines t) \<and>
         length (children (fst (run evs (step (FsRotate p) s)))) = length (children (fst s)) \<and>
         c_path (children (fst (run evs (step (FsRotate p) s))) ! i) = p \<and>
         c_ident (children (fst (run evs (step (FsRotate p) s))) ! i) =
           c_ident (children (fst s) ! i) \<and>
         ((\<forall>e \<in> set evs. \<not> writes_old p (c_ident (children (fst s) ! i)) e) \<longrightarrow>
          (\<exists>ms. sent (fst (run evs (step (FsRotate p) s))) = sent (fst s) @ ms \<and>
                (\<forall>m \<in> set ms. m = Pong \<or>
                   (\<exists>j l. j < length (children (fst s)) \<and> j \<noteq> i \<and>
                          m = LogMsg (processName (fst s)) (c_type (children (fst s) ! j)) l)))) \<and>
         sent (fst (run [FsRotate p, FsAppendOld p (c_ident (children (fst s) ! i)) t, TailPoll i] s)) =
           sent (fst s) @
           map (LogMsg (processName (fst s)) (c_type (children (fst s) ! i))) (nonblank_lines t)"
proof -
  let ?r = "step (FsRotate p) s"
  have fr: "fst ?r = fst s"
    by simp
  have i: "i < length (children (fst ?r))" and p: "c_path (children (fst s) ! i) = p"
    and rd: "c_state (children (fst ?r) ! i) = Reading"
    using assms by (auto simp: following_def split: option.splits)
  have 1: "length (children (fst (run evs ?r))) = length (children (fst s))"
    using run_frame(3) [of evs ?r] by simp
  have 2: "c_path (children (fst (run evs ?r)) ! i) = p"
    using run_child(1) [OF i, of evs] p by simp
  have 3: "c_ident (children (fst (run evs ?r)) ! i) = c_ident (children (fst s) ! i)"
    using run_child_reading [OF i rd, of evs] by simp
  have 4: "(\<forall>e \<in> set evs. \<not> writes_old p (c_ident (children (fst s) ! i)) e) \<longrightarrow>
          (\<exists>ms. sent (fst (run evs ?r)) = sent (fst s) @ ms \<and>
                (\<forall>m \<in> set ms. m = Pong \<or>
                   (\<exists>j l. j < length (children (fst s)) \<and> j \<noteq> i \<and>
                          m = LogMsg (processName (fst s)) (c_type (children (fst s) ! j)) l)))"
  proof
    assume h: "\<forall>e \<in> set evs. \<not> writes_old p (c_ident (children (fst s) ! i)) e"
    have "c_ident (children (fst ?r) ! i) = c_ident (children (fst s) ! i)"
      by simp
    from run_stale_sent [OF following_rotate [OF assms] this h]
    show "\<exists>ms. sent (fst (run evs ?r)) = sent (fst s) @ ms \<and>
                (\<forall>m \<in> set ms. m = Pong \<or>
                   (\<exists>j l. j < length (children (fst s)) \<and> j \<noteq> i \<and>
                          m = LogMsg (processName (fst s)) (c_type (children (fst s) ! j)) l))"
      by simp
  qed
  show ?thesis
    using poll_after_truncate(1) [OF assms] resume_after_truncate [OF assms, of t]
      1 2 3 4 old_file_followed [OF assms, of t]
    by blast
qed

theorem rotation_and_truncation_witness:
  "following 0 (js ''/home/u/.pm2/logs/app-out.log'')
     (run [TailStart 0] (app_session (Some (js ''out'')) [(''out'', js ''boot'')])) \<and>
   sent (fst (run [FsTruncate (js ''/home/u/.pm2/logs/app-out.log''), TailPoll 0,
                   FsAppend (js ''/home/u/.pm2/logs/app-out.log'') (js ''again'' @ [NL]), TailPoll 0]
                (run [TailStart 0] (app_session (Some (js ''out'')) [(''out'', js ''boot'')])))) =
     [Connected (js ''Connected to app logs'') (js ''app'') (js ''out''),
      LogMsg (js ''app'') (js ''out'') (js ''boot''),
      LogMsg (js ''app'') (js ''out'') (js ''again'')] \<and>
   length (children (fst (run [FsAppend (js ''/home/u/.pm2/logs/app-out.log'') (js ''fresh'' @ [NL]),
                               TailPoll 0]
                            (step (FsRotate (js ''/home/u/.pm2/logs/app-out.log''))
                               (run [TailStart 0]
                                  (app_session (Some (js ''out'')) [(''out'', js ''boot'')])))))) = 1"
proof -
  note t = rotation_and_truncation [OF boot_following, of "js ''again'' @ [NL]"
      "[FsAppend (js ''/home/u/.pm2/logs/app-out.log'') (js ''fresh'' @ [NL]), TailPoll 0]"]
  have a: "sent (fst (run [FsTruncate (js ''/home/u/.pm2/logs/app-out.log''), TailPoll 0,
                   FsAppend (js ''/home/u/.pm2/logs/app-out.log'') (js ''again'' @ [NL]), TailPoll 0]
                (run [TailStart 0] (app_session (Some (js ''out'')) [(''out'', js ''boot'')])))) =
     [Connected (js ''Connected to app logs'') (js ''app'') (js ''out''),
      LogMsg (js ''app'') (js ''out'') (js ''boot''),
      LogMsg (js ''app'') (js ''out'') (js ''again'')]"
    unfolding conjunct1 [OF conjunct2 [OF t]] demo_chunks by (simp add: boot_tail_start)
  have b: "length (children (fst (run [FsAppend (js ''/home/u/.pm2/logs/app-out.log'') (js ''fresh'' @ [NL]),
                               TailPoll 0]
                            (step (FsRotate (js ''/home/u/.pm2/logs/app-out.log''))
                               (run [TailStart 0]
                                  (app_session (Some (js ''out'')) [(''out'', js ''boot'')])))))) = 1"
    unfolding conjunct1 [OF conjunct2 [OF conjunct2 [OF t]]] by (simp add: boot_tail_start)
  show ?thesis
    using boot_following a b by blast
qed

text \<open>
  The claim as stated fails: the out log of \<open>app\<close> is replaced while a session follows
  it, the line \<open>fresh\<close> is written to the replacement, and the child reads. The new
  file holds the line; the child still holds the old file, has not been killed or
  restarted, and the session has received nothing beyond the acknowledgment and the
  replayed line \<open>boot\<close>.
\<close>

theorem rotation_counterexample:
  "files (snd (run [TailStart 0,
                    FsRotate (js ''/home/u/.pm2/logs/app-out.log''),
                    FsAppend (js ''/home/u/.pm2/logs/app-out.log'') (js ''fresh'' @ [NL]),
                    TailPoll 0]
                 (app_session (Some (js ''out'')) [(''out'', js ''boot'')])))
     (js ''/home/u/.pm2/logs/app-out.log'') =
     Some \<lparr>f_ident = 1, f_content = js ''fresh'' @ [NL], f_readable = True\<rparr> \<and>
   children (fst (run [TailStart 0,
                       FsRotate (js ''/home/u/.pm2/logs/app-out.log''),
                       FsAppend (js ''/home/u/.pm2/logs/app-out.log'') (js ''fresh'' @ [NL]),
                       TailPoll 0]
                    (app_session (Some (js ''out'')) [(''out'', js ''boot'')]))) =
     [\<lparr>c_path = js ''/home/u/.pm2/logs/app-out.log'', c_type = js ''out'',
       c_state = Reading, c_ident = 0, c_offset = 5, c_kills = 0\<rparr>] \<and>
   sent (fst (run [TailStart 0,
                   FsRotate (js ''/home/u/.pm2/logs/app-out.log''),
                   FsAppend (js ''/home/u/.pm2/logs/app-out.log'') (js ''fresh'' @ [NL]),
                   TailPoll 0]
                (app_session (Some (js ''out'')) [(''out'', js ''boot'')]))) =
     [Connected (js ''Connected to app logs'') (js ''app'') (js ''out''),
      LogMsg (js ''app'') (js ''out'') (js ''boot'')]"
proof -
  let ?s = "app_session (Some (js ''out'')) [(''out'', js ''boot'')]"
  let ?p = "js ''/home/u/.pm2/logs/app-out.log''"
  let ?c = "\<lparr>processName = js ''app'', readyState = 1,
       sent = [Connected (js ''Connected to app logs'') (js ''app'') (js ''out''),
               LogMsg (js ''app'') (js ''out'') (js ''boot'')],
       close_call = None,
       children = [\<lparr>c_path = js ''/home/u/.pm2/logs/app-out.log'', c_type = js ''out'',
                     c_state = Reading, c_ident = 0, c_offset = 5, c_kills = 0\<rparr>],
       tailProcess = Some 0, watchers = [], listening = True, registered = True\<rparr>"
  let ?w = "fs_append ?p (js ''fresh'' @ [NL]) (fs_rotate ?p (snd ?s))"
  have st: "tail_start 0 ?s = (?c, snd ?s)"
    by (rule boot_tail_start)
  have w: "files ?w ?p = Some \<lparr>f_ident = 1, f_content = js ''fresh'' @ [NL], f_readable = True\<rparr>"
    by (simp add: fs_append_def fs_rotate_def boot_files)
  have u: "unlinked ?w (?p, 0) = Some (js ''boot'' @ [NL])"
    by (simp add: fs_append_def fs_rotate_def boot_files)
  have c: "child_text (children ?c ! 0) ?w = Some (js ''boot'' @ [NL])"
    unfolding child_text_def by (simp add: w u)
  have "tail_read 0 None (?c, ?w) = (?c, ?w)"
    unfolding tail_read_def using c by (simp add: js_def)
  then have r: "run [TailStart 0, FsRotate ?p, FsAppend ?p (js ''fresh'' @ [NL]), TailPoll 0] ?s =
                (?c, ?w)"
    by (simp add: st)
  show ?thesis
    unfolding r using w by simp
qed

text \<open>
  Claim C4, as amended. When the log file of a stream (\<open>out\<close> or \<open>error\<close>) does not
  exist at the moment the session opens, nothing fails: the socket stays open, no
  \<^verbatim>\<open>ws.close\<close> is called and the handlers are attached. No child is started for that
  stream and nothing polls for the file, so the session never receives a log message
  of that stream, whatever happens afterwards, the creation of the file included.
\<close>

theorem missing_log_file:
  assumes "name \<noteq> []" and "jlist w = Inr ps" and "find (\<lambda>p. rp_name p = name) ps = Some pr"
    and "ty = ''out'' \<or> ty = ''error''"
    and "files w (log_path name ty w) = None"
  shows "close_call (fst (on_connection name qtype (fresh_ws, w))) = None \<and>
         readyState (fst (on_connection name qtype (fresh_ws, w))) = 1 \<and>
         listening (fst (on_connection name qtype (fresh_ws, w))) \<and>
         (\<forall>ch \<in> set (children (fst (on_connection name qtype (fresh_ws, w)))). c_type ch \<noteq> js ty) \<and>
         (\<forall>m \<in> set (sent (fst (run evs (on_connection name qtype (fresh_ws, w))))).
            \<forall>l. m \<noteq> LogMsg name (js ty) l)"
proof -
  let ?s = "on_connection name qtype (fresh_ws, w)"
  have ne: "\<not> existsSync (log_path name ty w) w"
    using assms(5) by (simp add: existsSync_def)
  have a: "close_call (fst ?s) = None" "readyState (fst ?s) = 1" "listening (fst ?s)"
    "processName (fst ?s) = name"
    unfolding opened [OF assms(1-3)] by simp_all
  have ch: "\<forall>ch \<in> set (children (fst ?s)). c_type ch \<noteq> js ty"
    unfolding opened [OF assms(1-3)] using assms(4) ne
    by (auto simp: tail_child_def js_distinct)
  have s0: "\<forall>m \<in> set (sent (fst ?s)). \<forall>l. m \<noteq> LogMsg name (js ty) l"
    unfolding opened [OF assms(1-3)] using assms(4) ne
    by (auto simp: js_distinct)
  obtain ms where 3: "sent (fst (run evs ?s)) = sent (fst ?s) @ ms"
    and 4: "\<forall>m \<in> set ms. m = Pong \<or>
           (\<exists>i l. i < length (children (fst ?s)) \<and>
                  m = LogMsg (processName (fst ?s)) (c_type (children (fst ?s) ! i)) l)"
    using run_sent [of evs ?s] by blast
  have "\<forall>m \<in> set ms. \<forall>l. m \<noteq> LogMsg name (js ty) l"
  proof (intro ballI allI)
    fix m l assume "m \<in> set ms"
    then consider "m = Pong"
      | i l' where "i < length (children (fst ?s))"
          "m = LogMsg name (c_type (children (fst ?s) ! i)) l'"
      using 4 a(4) by auto
    then show "m \<noteq> LogMsg name (js ty) l"
    proof cases
      case 1
      then show ?thesis by simp
    next
      case 2
      then have "c_type (children (fst ?s) ! i) \<noteq> js ty"
        using ch nth_mem by blast
      then show ?thesis using 2 by simp
    qed
  qed
  then have "\<forall>m \<in> set (sent (fst (run evs ?s))). \<forall>l. m \<noteq> LogMsg name (js ty) l"
    using s0 3 by auto
  then show ?thesis
    using a ch by blast
qed

theorem missing_log_file_witness:
  "files (written (js ''app'') [] app_world)
     (log_path (js ''app'') ''error'' (written (js ''app'') [] app_world)) = None \<and>
   readyState (fst (on_connection (js ''app'') None (fresh_ws, written (js ''app'') [] app_world))) = 1 \<and>
   close_call (fst (on_connection (js ''app'') None (fresh_ws, written (js ''app'') [] app_world))) = None"
proof -
  have f: "files (written (js ''app'') [] app_world)
     (log_path (js ''app'') ''error'' (written (js ''app'') [] app_world)) = None"
    by (simp add: written_def app_world_def)
  have t: "''error'' = ''out'' \<or> ''error'' = ''error''"
    by simp
  show ?thesis
    using f missing_log_file [OF app_found(3) app_found(1) [of "[]"] app_found(2) t f,
        where qtype = None and evs = "[]"]
    by simp
qed

text \<open>
  The claim as stated fails: a client asks for the out log of \<open>app\<close> before the file
  exists. No child is started. The file is then created with the line \<open>late\<close>; the
  session has received the acknowledgment and nothing else.
\<close>

theorem missing_file_counterexample:
  "files (written (js ''app'') [] app_world) (js ''/home/u/.pm2/logs/app-out.log'') = None \<and>
   children (fst (app_session (Some (js ''out'')) [])) = [] \<and>
   files (snd (run [FsAppend (js ''/home/u/.pm2/logs/app-out.log'') (js ''late'' @ [NL]), TailPoll 0]
                 (app_session (Some (js ''out'')) [])))
     (js ''/home/u/.pm2/logs/app-out.log'') =
     Some \<lparr>f_ident = 0, f_content = js ''late'' @ [NL], f_readable = True\<rparr> \<and>
   sent (fst (run [FsAppend (js ''/home/u/.pm2/logs/app-out.log'') (js ''late'' @ [NL]), TailPoll 0]
                (app_session (Some (js ''out'')) []))) =
     [Connected (js ''Connected to app logs'') (js ''app'') (js ''out'')]"
proof -
  let ?s = "app_session (Some (js ''out'')) []"
  let ?p = "js ''/home/u/.pm2/logs/app-out.log''"
  have f: "files (written (js ''app'') [] app_world) ?p = None"
    by (simp add: written_def app_world_def)
  have r: "run [FsAppend ?p (js ''late'' @ [NL]), TailPoll 0] ?s =
             (fst ?s, fs_append ?p (js ''late'' @ [NL]) (snd ?s))"
    by (simp add: tail_read_def empty_session case_prod_beta)
  have w: "files (fs_append ?p (js ''late'' @ [NL]) (snd ?s)) ?p =
             Some \<lparr>f_ident = 0, f_content = js ''late'' @ [NL], f_readable = True\<rparr>"
    by (simp add: fs_append_def app_session_world f)
  show ?thesis
    unfolding r using f w by (simp add: empty_session)
qed

end
